theory Spec2Isabelle
  imports Main "HOL-Library.Char_ord" "HOL-Library.List_Lexorder"
begin

section \<open>JSON values and the Python operations the services apply to them\<close>

text \<open>
  The services work on the output of a JSON decoder: dictionaries with string keys (which
  keep their insertion order), lists, strings, integers, booleans and \<open>None\<close>.  A
  dictionary is an association list in insertion order; a Python dictionary never holds a
  key twice, which is the predicate \<open>wf_json\<close>.  Characters are the 8-bit characters of
  \<open>string\<close>, read as the code points below 256; floating point numbers are left out (no
  function below looks inside a number).
\<close>

datatype json =
    JNull
  | JBool bool
  | JInt int
  | JStr string
  | JList "json list"
  | JObj "(string \<times> json) list"

datatype py_error = TypeError | AttributeError | KeyError | RecursionError | UnicodeEncodeError

type_synonym 'a result = "py_error + 'a"

definition bind :: "'a result \<Rightarrow> ('a \<Rightarrow> 'b result) \<Rightarrow> 'b result" where
  "bind m f = (case m of Inl e \<Rightarrow> Inl e | Inr x \<Rightarrow> f x)"

fun wf_json :: "json \<Rightarrow> bool" where
  "wf_json (JObj kvs) = (distinct (map fst kvs) \<and> (\<forall>kv \<in> set kvs. wf_json (snd kv)))"
| "wf_json (JList xs) = (\<forall>x \<in> set xs. wf_json x)"
| "wf_json j = True"

subsection \<open>Dictionaries\<close>

text \<open>\<open>d[k] = v\<close>: an existing key keeps its place, a new key goes to the end.\<close>

fun dict_set :: "('k \<times> 'v) list \<Rightarrow> 'k \<Rightarrow> 'v \<Rightarrow> ('k \<times> 'v) list" where
  "dict_set [] k v = [(k, v)]"
| "dict_set (p # ps) k v = (if fst p = k then (k, v) # ps else p # dict_set ps k v)"

definition dict_has :: "('k \<times> 'v) list \<Rightarrow> 'k \<Rightarrow> bool" where
  "dict_has kvs k = (map_of kvs k \<noteq> None)"

text \<open>\<open>sub in s\<close> on two strings: \<open>sub\<close> occurs in \<open>s\<close> as a contiguous piece.\<close>

fun is_substring :: "string \<Rightarrow> string \<Rightarrow> bool" where
  "is_substring sub [] = (sub = [])"
| "is_substring sub (c # cs) = (take (length sub) (c # cs) = sub \<or> is_substring sub cs)"

text \<open>\<open>k in x\<close> for a string \<open>k\<close>: keys of a dictionary, elements of a list, pieces of a
  string; any other operand raises \<open>TypeError\<close>.\<close>

fun py_contains :: "string \<Rightarrow> json \<Rightarrow> bool result" where
  "py_contains k (JObj kvs) = Inr (dict_has kvs k)"
| "py_contains k (JList xs) = Inr (JStr k \<in> set xs)"
| "py_contains k (JStr s) = Inr (is_substring k s)"
| "py_contains k j = Inl TypeError"

text \<open>\<open>x.get(k, d)\<close> and \<open>x.get(k)\<close>: only a dictionary has the method.\<close>

fun py_get_default :: "json \<Rightarrow> string \<Rightarrow> json \<Rightarrow> json result" where
  "py_get_default (JObj kvs) k d = Inr (case map_of kvs k of None \<Rightarrow> d | Some v \<Rightarrow> v)"
| "py_get_default j k d = Inl AttributeError"

definition py_get :: "json \<Rightarrow> string \<Rightarrow> json result" where
  "py_get x k = py_get_default x k JNull"

text \<open>\<open>x[k]\<close> with a string \<open>k\<close>: \<open>KeyError\<close> on a dictionary without the key,
  \<open>TypeError\<close> on a list, a string or a scalar.\<close>

fun py_getitem :: "json \<Rightarrow> string \<Rightarrow> json result" where
  "py_getitem (JObj kvs) k = (case map_of kvs k of None \<Rightarrow> Inl KeyError | Some v \<Rightarrow> Inr v)"
| "py_getitem j k = Inl TypeError"

text \<open>\<open>x[k] = v\<close> with a string \<open>k\<close>.\<close>

fun py_setitem :: "json \<Rightarrow> string \<Rightarrow> json \<Rightarrow> json result" where
  "py_setitem (JObj kvs) k v = Inr (JObj (dict_set kvs k v))"
| "py_setitem j k v = Inl TypeError"

text \<open>\<open>for e in x\<close>: the elements of a list, the keys of a dictionary, the characters of a
  string.\<close>

fun py_iter :: "json \<Rightarrow> json list result" where
  "py_iter (JList xs) = Inr xs"
| "py_iter (JObj kvs) = Inr (map (\<lambda>kv. JStr (fst kv)) kvs)"
| "py_iter (JStr s) = Inr (map (\<lambda>c. JStr [c]) s)"
| "py_iter j = Inl TypeError"

text \<open>\<open>x.append(v)\<close>: only a list has the method.\<close>

fun py_append :: "json \<Rightarrow> json \<Rightarrow> json result" where
  "py_append (JList xs) v = Inr (JList (xs @ [v]))"
| "py_append j v = Inl AttributeError"

text \<open>Truth value of an object in \<open>if x\<close> and \<open>not x\<close>.\<close>

fun py_truthy :: "json \<Rightarrow> bool" where
  "py_truthy JNull = False"
| "py_truthy (JBool b) = b"
| "py_truthy (JInt i) = (i \<noteq> 0)"
| "py_truthy (JStr s) = (s \<noteq> [])"
| "py_truthy (JList xs) = (xs \<noteq> [])"
| "py_truthy (JObj kvs) = (kvs \<noteq> [])"

text \<open>
  \<open>copy.deepcopy\<close> on values: the copy of a tree that the interpreter can copy is an
  equal value.  The objects that the copy creates, and the \<open>RecursionError\<close> on a tree
  that is nested deeper than the recursion limit allows, belong to the model with a store
  further below (\<open>h_deepcopy\<close>), in which \<open>filter_json_entity\<close> is modelled.
\<close>

definition deepcopy :: "json \<Rightarrow> json" where
  "deepcopy x = x"

subsection \<open>\<open>str\<close> and \<open>repr\<close>\<close>

definition digit_char :: "nat \<Rightarrow> char" where
  "digit_char n = ''0123456789abcdef'' ! (n mod 16)"

fun nat_digits :: "nat \<Rightarrow> string" where
  "nat_digits n = (if n < 10 then [digit_char n] else nat_digits (n div 10) @ [digit_char (n mod 10)])"

declare nat_digits.simps [simp del]

definition int_str :: "int \<Rightarrow> string" where
  "int_str i = (if i < 0 then CHR ''-'' # nat_digits (nat (- i)) else nat_digits (nat i))"

definition hex_escape :: "char \<Rightarrow> string" where
  "hex_escape c = [CHR 0x5C, CHR ''x'', digit_char (of_char c div 16), digit_char (of_char c mod 16)]"

text \<open>Printable code points below 256: the visible ASCII characters and \<open>0xA1\<close> to
  \<open>0xFF\<close> without the soft hyphen \<open>0xAD\<close>.\<close>

definition printable :: "char \<Rightarrow> bool" where
  "printable c = (let n = (of_char c :: nat) in (32 \<le> n \<and> n < 127) \<or> (161 \<le> n \<and> n \<noteq> 173))"

definition repr_char :: "char \<Rightarrow> char \<Rightarrow> string" where
  "repr_char quote c =
     (if c = quote \<or> c = CHR 0x5C then [CHR 0x5C, c]
      else if c = CHR 0x09 then [CHR 0x5C, CHR ''t'']
      else if c = CHR 0x0A then [CHR 0x5C, CHR ''n'']
      else if c = CHR 0x0D then [CHR 0x5C, CHR ''r'']
      else if printable c then [c]
      else hex_escape c)"

definition repr_str :: "string \<Rightarrow> string" where
  "repr_str s =
     (let quote = (if CHR 0x27 \<in> set s \<and> CHR 0x22 \<notin> set s then CHR 0x22 else CHR 0x27)
      in quote # concat (map (repr_char quote) s) @ [quote])"

fun join :: "string \<Rightarrow> string list \<Rightarrow> string" where
  "join sep [] = []"
| "join sep [x] = x"
| "join sep (x # y # ys) = x @ sep @ join sep (y # ys)"

fun py_repr :: "json \<Rightarrow> string" where
  "py_repr JNull = ''None''"
| "py_repr (JBool b) = (if b then ''True'' else ''False'')"
| "py_repr (JInt i) = int_str i"
| "py_repr (JStr s) = repr_str s"
| "py_repr (JList xs) = ''['' @ join '', '' (map py_repr xs) @ '']''"
| "py_repr (JObj kvs) =
     ''{'' @ join '', '' (map (\<lambda>(k, v). repr_str k @ '': '' @ py_repr v) kvs) @ ''}''"

text \<open>\<open>str(x)\<close>: a string is itself, everything else is its \<open>repr\<close>.\<close>

fun py_str :: "json \<Rightarrow> string" where
  "py_str (JStr s) = s"
| "py_str j = py_repr j"

section \<open>Position numbers\<close>

text \<open>
  \<open>re.match(r"^(\d{2})(\d{2})(\d{2})([A-Z]?)$", nr)\<close> on the strings of the trees, which
  are modelled with 8-bit characters: among these \<open>\d\<close> matches the ASCII digits only.
  (The format checks on all Python strings, where \<open>\d\<close> matches every Unicode decimal
  digit, follow in the next section.)  Without the \<open>MULTILINE\<close> flag, \<open>$\<close> matches at the
  end of the string and also just before a line feed that ends the string.
\<close>

definition is_digit :: "char \<Rightarrow> bool" where
  "is_digit c = (c \<in> set ''0123456789'')"

definition is_upper :: "char \<Rightarrow> bool" where
  "is_upper c = (c \<in> set ''ABCDEFGHIJKLMNOPQRSTUVWXYZ'')"

definition at_dollar :: "string \<Rightarrow> bool" where
  "at_dollar rest = (rest = [] \<or> rest = [CHR 0x0A])"

text \<open>The four groups of a match, or \<open>None\<close>.  The optional letter is tried first
  (the quantifier is greedy); when the text after it is not at \<open>$\<close>, the match is retried
  with an empty fourth group.\<close>

definition match_position_nr :: "string \<Rightarrow> (string \<times> string \<times> string \<times> string) option" where
  "match_position_nr nr =
     (if length nr \<ge> 6 \<and> list_all is_digit (take 6 nr) then
        (let groups = (\<lambda>fp. Some (take 2 nr, take 2 (drop 2 nr), take 2 (drop 4 nr), fp));
             rest = drop 6 nr
         in case rest of
              c # rest' \<Rightarrow>
                if is_upper c \<and> at_dollar rest' then groups [c]
                else if at_dollar rest then groups []
                else None
            | [] \<Rightarrow> groups [])
      else None)"

text \<open>\<open>validate_position_number_format\<close>: anything that is not a string is refused.\<close>

fun validate_position_number_format :: "json \<Rightarrow> bool" where
  "validate_position_number_format (JStr s) = (match_position_nr s \<noteq> None)"
| "validate_position_number_format j = False"

record position_info =
  info_lg_nr :: string
  info_ulg_nr :: string
  info_grundtext_nr :: string
  info_folgeposition :: "string option"
  info_is_full_grundtext :: bool

text \<open>\<open>get_position_info\<close>; the empty dictionary of the source is \<open>None\<close>, and the
  keys of the returned dictionary are the fields \<open>info_...\<close>.\<close>

definition get_position_info :: "json \<Rightarrow> position_info option" where
  "get_position_info position_number =
     (if \<not> validate_position_number_format position_number then None
      else case position_number of
        JStr s \<Rightarrow>
          (case match_position_nr s of
             None \<Rightarrow> None
           | Some (lg, ulg, gt, fp_letter) \<Rightarrow>
               Some \<lparr> info_lg_nr = lg, info_ulg_nr = ulg, info_grundtext_nr = gt,
                      info_folgeposition = (if fp_letter \<noteq> [] then Some fp_letter else None),
                      info_is_full_grundtext = (fp_letter = []) \<rparr>)
      | _ \<Rightarrow> None)"

section \<open>The format checks on Python strings\<close>

text \<open>
  A Python string is a sequence of code points, not of bytes.  For the two format checks
  a string is the list of its code points, and the character classes are those of the
  interpreter: in a \<open>str\<close> pattern \<open>\d\<close> matches every Unicode decimal digit (category
  \<open>Nd\<close>), \<open>[A-Z]\<close> and \<open>[A-Za-z]\<close> are ranges of ASCII, and \<open>str.strip()\<close> removes the
  characters for which \<open>str.isspace()\<close> holds.  The decimal digits come in blocks of ten;
  \<open>decimal_zeros\<close> lists the zero of each block (Unicode 14.0, the table of Python 3.11).
\<close>

type_synonym py_string = "nat list"

definition decimal_zeros :: "nat list" where
  "decimal_zeros =
     [48, 1632, 1776, 1984, 2406, 2534, 2662, 2790, 2918, 3046, 3174, 3302, 3430, 3558, 3664,
      3792, 3872, 4160, 4240, 6112, 6160, 6470, 6608, 6784, 6800, 6992, 7088, 7232, 7248,
      42528, 43216, 43264, 43472, 43504, 43600, 44016, 65296, 66720, 68912, 69734, 69872,
      69942, 70096, 70384, 70736, 70864, 71248, 71360, 71472, 71904, 72016, 72784, 73040,
      73120, 92768, 92864, 93008, 120782, 120792, 120802, 120812, 120822, 123200, 123632,
      125264, 130032]"

definition is_decimal :: "nat \<Rightarrow> bool" where
  "is_decimal c = list_ex (\<lambda>z. z \<le> c \<and> c < z + 10) decimal_zeros"

definition is_ascii_digit :: "nat \<Rightarrow> bool" where
  "is_ascii_digit c = (48 \<le> c \<and> c \<le> 57)"

definition is_ascii_upper :: "nat \<Rightarrow> bool" where
  "is_ascii_upper c = (65 \<le> c \<and> c \<le> 90)"

definition is_ascii_letter :: "nat \<Rightarrow> bool" where
  "is_ascii_letter c = ((65 \<le> c \<and> c \<le> 90) \<or> (97 \<le> c \<and> c \<le> 122))"

definition is_whitespace :: "nat \<Rightarrow> bool" where
  "is_whitespace c =
     ((9 \<le> c \<and> c \<le> 13) \<or> (28 \<le> c \<and> c \<le> 32) \<or> c = 133 \<or> c = 160 \<or> c = 5760 \<or>
      (8192 \<le> c \<and> c \<le> 8202) \<or> c = 8232 \<or> c = 8233 \<or> c = 8239 \<or> c = 8287 \<or> c = 12288)"

text \<open>\<open>s.strip()\<close>.\<close>

definition strip :: "py_string \<Rightarrow> py_string" where
  "strip s = rev (dropWhile is_whitespace (rev (dropWhile is_whitespace s)))"

text \<open>\<open>$\<close> without the \<open>MULTILINE\<close> flag: at the end of the string, or just before a line
  feed (code point 10) that ends the string.\<close>

definition at_end :: "py_string \<Rightarrow> bool" where
  "at_end rest = (rest = [] \<or> rest = [10])"

text \<open>
  \<open>re.match(pattern, s)\<close> finds a match, for the patterns \<open>^\d{6}letter?$\<close> of the two
  checks (the three groups of two digits of the first pattern are six digits).  The
  optional letter is tried first; when the text after it is not at \<open>$\<close>, the match is
  retried without it.
\<close>

definition matches_code_pattern :: "(nat \<Rightarrow> bool) \<Rightarrow> py_string \<Rightarrow> bool" where
  "matches_code_pattern letter s =
     (length s \<ge> 6 \<and> list_all is_decimal (take 6 s) \<and>
      (case drop 6 s of
         c # rest \<Rightarrow> (letter c \<and> at_end rest) \<or> at_end (c # rest)
       | [] \<Rightarrow> True))"

text \<open>\<open>validate_position_number_format\<close> on a string (the \<open>isinstance\<close> test holds):
  \<open>bool(re.match(r"^(\d{2})(\d{2})(\d{2})([A-Z]?)$", position_number))\<close>.\<close>

definition validate_position_number_string :: "py_string \<Rightarrow> bool" where
  "validate_position_number_string position_number =
     matches_code_pattern is_ascii_upper position_number"

text \<open>
  The format check of \<open>find_regulation_by_number\<close> on a string: the empty string is
  refused, white space is stripped from both ends, and the rest is matched against
  \<open>^\d{6}[A-Za-z]?$\<close>.
\<close>

definition regulation_nr_format_ok :: "py_string \<Rightarrow> bool" where
  "regulation_nr_format_ok regulation_nr =
     (regulation_nr \<noteq> [] \<and> matches_code_pattern is_ascii_letter (strip regulation_nr))"

text \<open>
  A code: exactly six digits, then at most one letter.  The grammar of the position code
  has the digits \<open>0\<close> to \<open>9\<close> and the letters \<open>A\<close> to \<open>Z\<close>.
\<close>

definition code_grammar :: "(nat \<Rightarrow> bool) \<Rightarrow> (nat \<Rightarrow> bool) \<Rightarrow> py_string \<Rightarrow> bool" where
  "code_grammar digit letter s =
     ((length s = 6 \<and> list_all digit s) \<or>
      (length s = 7 \<and> list_all digit (take 6 s) \<and> letter (s ! 6)))"

definition position_code_grammar :: "py_string \<Rightarrow> bool" where
  "position_code_grammar s = code_grammar is_ascii_digit is_ascii_upper s"

text \<open>The code points of a string of the 8-bit characters that the trees are modelled
  with.\<close>

definition code_points :: "string \<Rightarrow> py_string" where
  "code_points s = map of_char s"

section \<open>Canonical key order\<close>

datatype object_type = LG | ULG | GT | POS | UNKNOWN

text \<open>\<open>KEY_ORDER_MAP.get(obj_type, [])\<close>.\<close>

definition KEY_ORDER_MAP :: "object_type \<Rightarrow> string list" where
  "KEY_ORDER_MAP t =
     (case t of
        LG \<Rightarrow> [''lg-eigenschaften'', ''ulg-liste'', ''@_nr'']
      | ULG \<Rightarrow> [''ulg-eigenschaften'', ''positionen'', ''@_nr'']
      | GT \<Rightarrow> [''grundtext'', ''ungeteilteposition'', ''folgeposition'', ''@_nr'']
      | POS \<Rightarrow> [''pos-eigenschaften'', ''@_ftnr'', ''@_mfv'']
      | UNKNOWN \<Rightarrow> [])"

definition get_object_type :: "(string \<times> json) list \<Rightarrow> object_type" where
  "get_object_type obj =
     (if dict_has obj ''@_nr'' \<and> dict_has obj ''lg-eigenschaften'' then LG
      else if dict_has obj ''@_nr'' \<and> dict_has obj ''ulg-eigenschaften'' then ULG
      else if dict_has obj ''@_nr'' \<and>
              (dict_has obj ''grundtext'' \<or> dict_has obj ''ungeteilteposition'' \<or>
               dict_has obj ''folgeposition'') then GT
      else if (dict_has obj ''@_ftnr'' \<or> dict_has obj ''@_mfv'') \<and>
              dict_has obj ''pos-eigenschaften'' then POS
      else UNKNOWN)"

text \<open>
  \<open>_preserve_json_order\<close>.  The two loops over a recognised dictionary are the two folds:
  first the keys of the predefined order that the dictionary has, then every remaining item
  in its original order; an unrecognised dictionary is rebuilt item by item.
\<close>

function preserve_json_order :: "json \<Rightarrow> json" where
  "preserve_json_order (JObj obj) =
     (let predefined_order = KEY_ORDER_MAP (get_object_type obj) in
      if predefined_order \<noteq> [] then
        (let ordered_dict =
               fold (\<lambda>key od. case map_of obj key of
                                 Some v \<Rightarrow> dict_set od key (preserve_json_order v)
                               | None \<Rightarrow> od)
                    predefined_order []
         in JObj (fold (\<lambda>kv od. if \<not> dict_has od (fst kv)
                                  then dict_set od (fst kv) (preserve_json_order (snd kv))
                                  else od)
                       obj ordered_dict))
      else JObj (fold (\<lambda>kv od. dict_set od (fst kv) (preserve_json_order (snd kv))) obj []))"
| "preserve_json_order (JList xs) = JList (map preserve_json_order xs)"
| "preserve_json_order JNull = JNull"
| "preserve_json_order (JBool b) = JBool b"
| "preserve_json_order (JInt i) = JInt i"
| "preserve_json_order (JStr s) = JStr s"
  by pat_completeness auto
termination
proof (relation "measure size")
  have item: "size (snd kv) < Suc (size_list (size_prod (\<lambda>x. 0) size) obj)"
    if "kv \<in> set obj" for kv :: "string \<times> json" and obj
    using that
  proof (induction obj)
    case Nil
    then show ?case by simp
  next
    case (Cons a obj)
    show ?case
    proof (cases "kv = a")
      case True
      then show ?thesis by (cases a) simp
    next
      case False
      with Cons have "size (snd kv) < Suc (size_list (size_prod (\<lambda>x. 0) size) obj)"
        by simp
      then show ?thesis by simp
    qed
  qed
  show "wf (measure size)" by simp
  show "(v, JObj obj) \<in> measure size" if "map_of obj key = Some v" for obj key v
    using item [OF map_of_SomeD [OF that]] by simp
  show "(snd kv, JObj obj) \<in> measure size" if "kv \<in> set obj" for kv obj
    using item [OF that] by simp
  show "(snd kv, JObj obj) \<in> measure size" if "kv \<in> set obj" for kv obj
    using item [OF that] by simp
  show "(x, JList xs) \<in> measure size" if "x \<in> set xs" for x xs
    using that by (induction xs) auto
qed


section \<open>Numbers as arguments, nested items and the levels of \<open>filter_json_entity\<close>\<close>

text \<open>A number given as \<open>str | int\<close>, and its \<open>str(...)\<close>.\<close>

datatype py_key = KStr string | KInt int

fun key_str :: "py_key \<Rightarrow> string" where
  "key_str (KStr s) = s"
| "key_str (KInt i) = int_str i"

text \<open>\<open>k1 in x and k2 in x[k1]\<close>; the right operand is evaluated only when the left one
  holds.\<close>

definition has_nested :: "json \<Rightarrow> string \<Rightarrow> string \<Rightarrow> bool result" where
  "has_nested x k1 k2 =
     bind (py_contains k1 x) (\<lambda>has_k1.
       if has_k1 then bind (py_getitem x k1) (\<lambda>d. py_contains k2 d) else Inr False)"

text \<open>\<open>x[k1][k2]\<close>.\<close>

definition get_nested :: "json \<Rightarrow> string \<Rightarrow> string \<Rightarrow> json result" where
  "get_nested x k1 k2 = bind (py_getitem x k1) (\<lambda>d. py_getitem d k2)"

text \<open>\<open>x[k1][k2] = v\<close>: the dictionary \<open>x[k1]\<close> is changed in place, so the change shows
  in \<open>x\<close>.\<close>

definition set_nested :: "json \<Rightarrow> string \<Rightarrow> string \<Rightarrow> json \<Rightarrow> json result" where
  "set_nested x k1 k2 v =
     bind (py_getitem x k1) (\<lambda>d. bind (py_setitem d k2 v) (\<lambda>d'. py_setitem x k1 d'))"

text \<open>The level that \<open>filter_json_entity\<close> detects for a dictionary, in the order of its
  tests, and the target types that the error message of each level lists.\<close>

datatype level = LG_level | ULG_level | Grundtext_level

definition detected_level :: "(string \<times> 'v) list \<Rightarrow> level option" where
  "detected_level obj =
     (if dict_has obj ''lg-eigenschaften'' \<and> dict_has obj ''ulg-liste'' then Some LG_level
      else if dict_has obj ''ulg-eigenschaften'' \<and> dict_has obj ''positionen'' then Some ULG_level
      else if dict_has obj ''grundtext'' \<and> dict_has obj ''folgeposition'' then Some Grundtext_level
      else None)"

fun valid_target_types :: "level \<Rightarrow> string list" where
  "valid_target_types LG_level = [''ULG'', ''Grundtext'', ''Folgeposition'']"
| "valid_target_types ULG_level = [''Grundtext'', ''Folgeposition'']"
| "valid_target_types Grundtext_level = [''Folgeposition'']"

section \<open>Keeping a set of position numbers: \<open>filter_json_by_full_nr\<close>\<close>

text \<open>
  The function on values.  Its \<open>print\<close> calls are left out here: standard output is
  taken to accept every line.  The model with a store further below has them, with a
  standard output that may raise.
\<close>

text \<open>\<open>for x in xs: if str(x.get("@_nr")) == nr: target = x; break\<close>, with \<open>None\<close> when
  the loop ends without a hit.\<close>

fun find_by_nr :: "json list \<Rightarrow> string \<Rightarrow> json option result" where
  "find_by_nr [] nr = Inr None"
| "find_by_nr (x # xs) nr =
     bind (py_get x ''@_nr'') (\<lambda>v. if py_str v = nr then Inr (Some x) else find_by_nr xs nr)"

text \<open>The same search in a list of the result; the hit is an alias of a list element, so
  the model returns it with the elements before and after it, and a change of the hit is
  written back between them.\<close>

fun split_by_nr :: "json list \<Rightarrow> string \<Rightarrow> (json list \<times> json \<times> json list) option result" where
  "split_by_nr [] nr = Inr None"
| "split_by_nr (x # xs) nr =
     bind (py_get x ''@_nr'') (\<lambda>v.
       if py_str v = nr then Inr (Some ([], x, xs))
       else bind (split_by_nr xs nr) (\<lambda>r.
         Inr (case r of None \<Rightarrow> None | Some (before, hit, after) \<Rightarrow> Some (x # before, hit, after))))"

text \<open>\<open>for fp in fps: if fp.get("@_ftnr") == fp_letter: ...; break\<close>: the first
  Folgeposition with the letter.\<close>

fun find_fp :: "json list \<Rightarrow> string \<Rightarrow> json option result" where
  "find_fp [] fp_letter = Inr None"
| "find_fp (fp # fps) fp_letter =
     bind (py_get fp ''@_ftnr'') (\<lambda>v. if v = JStr fp_letter then Inr (Some fp) else find_fp fps fp_letter)"

text \<open>\<open>[fp.get("@_ftnr") for fp in fps]\<close>.\<close>

fun ftnrs :: "json list \<Rightarrow> json list result" where
  "ftnrs [] = Inr []"
| "ftnrs (fp # fps) = bind (py_get fp ''@_ftnr'') (\<lambda>v. bind (ftnrs fps) (\<lambda>vs. Inr (v # vs)))"

text \<open>\<open>target_gt.get("folgeposition", [])\<close> as the list a \<open>for\<close> loop runs over.\<close>

definition folgepositionen :: "json \<Rightarrow> json list result" where
  "folgepositionen gt = bind (py_get_default gt ''folgeposition'' (JList [])) py_iter"

text \<open>\<open>x["folgeposition"].append(v)\<close>.\<close>

definition append_folgeposition :: "json \<Rightarrow> json \<Rightarrow> json result" where
  "append_folgeposition gt v =
     bind (py_getitem gt ''folgeposition'') (\<lambda>fps.
     bind (py_append fps v) (\<lambda>fps'. py_setitem gt ''folgeposition'' fps'))"

text \<open>
  The branch \<open>if fp_letter: ... else: ...\<close> at the end of the loop body.  Its value is the
  new content of the list \<open>result_ulg["positionen"]["grundtextnr"]\<close>, given the content
  \<open>result_gts\<close> before and the outcome \<open>existing\<close> of the search for the Grundtext in it.
\<close>

definition add_position ::
  "json \<Rightarrow> string \<Rightarrow> json list \<Rightarrow> (json list \<times> json \<times> json list) option \<Rightarrow> json list result" where
  "add_position target_gt fp_letter result_gts existing =
     (let existing_gt = (case existing of
                           Some (before, hit, after) \<Rightarrow> if py_truthy hit then existing else None
                         | None \<Rightarrow> None)
      in
      if fp_letter \<noteq> [] then
        (case existing_gt of
           Some (before, hit, after) \<Rightarrow>
             bind (folgepositionen hit) (\<lambda>hit_fps.
             bind (ftnrs hit_fps) (\<lambda>existing_fps.
               if JStr fp_letter \<notin> set existing_fps then
                 bind (folgepositionen target_gt) (\<lambda>target_fps.
                 bind (find_fp target_fps fp_letter) (\<lambda>found.
                   case found of
                     Some fp \<Rightarrow>
                       bind (append_folgeposition hit (deepcopy fp)) (\<lambda>hit'.
                         Inr (before @ hit' # after))
                   | None \<Rightarrow> Inr result_gts))
               else Inr result_gts))
         | None \<Rightarrow>
             bind (py_setitem (deepcopy target_gt) ''folgeposition'' (JList [])) (\<lambda>new_gt.
             bind (folgepositionen target_gt) (\<lambda>target_fps.
             bind (find_fp target_fps fp_letter) (\<lambda>found.
             bind (case found of
                     Some fp \<Rightarrow> append_folgeposition new_gt (deepcopy fp)
                   | None \<Rightarrow> Inr new_gt) (\<lambda>new_gt.
               Inr (result_gts @ [new_gt]))))))
      else
        (case existing_gt of
           None \<Rightarrow> Inr (result_gts @ [deepcopy target_gt])
         | Some e \<Rightarrow> Inr result_gts))"

text \<open>The search for the target ULG in the original input; a hit that is falsy counts
  as no hit (\<open>if not target_ulg: continue\<close>).\<close>

definition find_target_ulg :: "json \<Rightarrow> string \<Rightarrow> json option result" where
  "find_target_ulg json_input ulg_nr =
     bind (py_get_default json_input ''ulg-liste'' (JObj [])) (\<lambda>liste.
     bind (py_get_default liste ''ulg'' (JList [])) (\<lambda>ulgs.
     bind (py_iter ulgs) (\<lambda>ulg_list.
     bind (find_by_nr ulg_list ulg_nr) (\<lambda>found.
       Inr (case found of
              Some target_ulg \<Rightarrow> if py_truthy target_ulg then Some target_ulg else None
            | None \<Rightarrow> None)))))"

text \<open>The search for the target Grundtext in the target ULG.\<close>

definition find_target_gt :: "json \<Rightarrow> string \<Rightarrow> json option result" where
  "find_target_gt target_ulg gt_nr =
     bind (py_get_default target_ulg ''positionen'' (JObj [])) (\<lambda>positionen.
     bind (py_get_default positionen ''grundtextnr'' (JList [])) (\<lambda>gts.
     bind (py_iter gts) (\<lambda>gt_list.
     bind (find_by_nr gt_list gt_nr) (\<lambda>found.
       Inr (case found of
              Some target_gt \<Rightarrow> if py_truthy target_gt then Some target_gt else None
            | None \<Rightarrow> None)))))"

text \<open>\<open>if ulg_nr in added_ulgs: ... else: ...\<close>: the state after the branch and the
  \<open>result_ulg\<close> it has chosen or created.\<close>

definition result_ulg_for ::
  "(string \<times> json) list \<Rightarrow> string \<Rightarrow> json \<Rightarrow> ((string \<times> json) list \<times> json) result" where
  "result_ulg_for added_ulgs ulg_nr target_ulg =
     (case map_of added_ulgs ulg_nr of
        Some result_ulg \<Rightarrow> Inr (added_ulgs, result_ulg)
      | None \<Rightarrow>
          bind (set_nested (deepcopy target_ulg) ''positionen'' ''grundtextnr'' (JList []))
            (\<lambda>result_ulg. Inr (dict_set added_ulgs ulg_nr result_ulg, result_ulg)))"

text \<open>The rest of the loop body once the target Grundtext is known: the \<open>result_ulg\<close>
  after it.\<close>

definition keep_in_ulg :: "json \<Rightarrow> string \<Rightarrow> string \<Rightarrow> json \<Rightarrow> json result" where
  "keep_in_ulg target_gt gt_nr fp_letter result_ulg =
     bind (get_nested result_ulg ''positionen'' ''grundtextnr'') (\<lambda>rgts.
     bind (py_iter rgts) (\<lambda>result_gts.
     bind (split_by_nr result_gts gt_nr) (\<lambda>existing.
     bind (add_position target_gt fp_letter result_gts existing) (\<lambda>result_gts'.
       set_nested result_ulg ''positionen'' ''grundtextnr'' (JList result_gts')))))"

text \<open>
  One round of the loop over \<open>full_nrs_to_keep\<close>.  The state of the loop is the ordered
  dictionary \<open>added_ulgs\<close>.  Its values are the very objects that the loop appends to
  \<open>result["ulg-liste"]["ulg"]\<close>, in the same order, so the list is \<open>map snd added_ulgs\<close>
  at every moment and a change of a \<open>result_ulg\<close> is a change of its entry.  A round that
  ends in \<open>continue\<close> returns the state it has reached.
\<close>

definition keep_round :: "json \<Rightarrow> (string \<times> json) list \<Rightarrow> string \<Rightarrow> (string \<times> json) list result" where
  "keep_round json_input added_ulgs nr =
     (case match_position_nr nr of
        None \<Rightarrow> Inr added_ulgs
      | Some (lg, ulg_nr, gt_nr, fp_letter) \<Rightarrow>
          bind (find_target_ulg json_input ulg_nr) (\<lambda>found_ulg.
            case found_ulg of
              None \<Rightarrow> Inr added_ulgs
            | Some target_ulg \<Rightarrow>
                bind (result_ulg_for added_ulgs ulg_nr target_ulg) (\<lambda>(added_ulgs, result_ulg).
                bind (find_target_gt target_ulg gt_nr) (\<lambda>found_gt.
                  case found_gt of
                    None \<Rightarrow> Inr added_ulgs
                  | Some target_gt \<Rightarrow>
                      bind (keep_in_ulg target_gt gt_nr fp_letter result_ulg) (\<lambda>result_ulg'.
                        Inr (dict_set added_ulgs ulg_nr result_ulg'))))))"

fun keep_loop :: "json \<Rightarrow> (string \<times> json) list \<Rightarrow> string list \<Rightarrow> (string \<times> json) list result" where
  "keep_loop json_input added_ulgs [] = Inr added_ulgs"
| "keep_loop json_input added_ulgs (nr # nrs) =
     bind (keep_round json_input added_ulgs nr) (\<lambda>added_ulgs'. keep_loop json_input added_ulgs' nrs)"

text \<open>The start of both paths: a deep copy whose ULG list, when it has one, is emptied.\<close>

definition emptied_copy :: "json \<Rightarrow> json result" where
  "emptied_copy json_input =
     (let result = deepcopy json_input in
      bind (has_nested result ''ulg-liste'' ''ulg'') (\<lambda>has.
        if has then set_nested result ''ulg-liste'' ''ulg'' (JList []) else Inr result))"

text \<open>
  \<open>filter_json_by_full_nr\<close>.  When the loop has added no ULG the result is the emptied
  copy; otherwise its ULG list holds the objects of \<open>added_ulgs\<close>.
\<close>

definition filter_json_by_full_nr :: "json \<Rightarrow> string list \<Rightarrow> json result" where
  "filter_json_by_full_nr json_input full_nrs_to_keep =
     (if full_nrs_to_keep = [] then emptied_copy json_input
      else
        bind (emptied_copy json_input) (\<lambda>result.
        bind (keep_loop json_input [] full_nrs_to_keep) (\<lambda>added_ulgs.
          if added_ulgs = [] then Inr result
          else set_nested result ''ulg-liste'' ''ulg'' (JList (map snd added_ulgs)))))"

text \<open>\<open>filter_lg_by_position_numbers\<close>: the wrapper with its two early returns.\<close>

definition filter_lg_by_position_numbers :: "json \<Rightarrow> string list \<Rightarrow> json result" where
  "filter_lg_by_position_numbers lg_json_data position_numbers =
     (if \<not> py_truthy lg_json_data then Inr (JObj [])
      else if position_numbers = [] then emptied_copy lg_json_data
      else filter_json_by_full_nr lg_json_data position_numbers)"


definition existing_gt :: "(string \<times> json) list \<Rightarrow> string \<Rightarrow> string \<Rightarrow> json option" where
  "existing_gt added_ulgs ulg_nr gt_nr =
     (case map_of added_ulgs ulg_nr of
        None \<Rightarrow> None
      | Some result_ulg \<Rightarrow>
          (case get_nested result_ulg ''positionen'' ''grundtextnr'' of
             Inr (JList result_gts) \<Rightarrow>
               (case split_by_nr result_gts gt_nr of
                  Inr (Some (before, hit, after)) \<Rightarrow> if py_truthy hit then Some hit else None
                | _ \<Rightarrow> None)
           | _ \<Rightarrow> None))"


section \<open>Reconstruction from stored rows: \<open>fetch_and_filter_lg_by_position_numbers_v2\<close>\<close>

text \<open>
  The storage is outside the program.  A row of the table \<open>regulations\<close> is a record of
  its text columns; the queries of this function always filter on \<open>lg_nr\<close>, so that
  column is a string, the other numbers may be \<open>NULL\<close>.  The column \<open>entity_json\<close> is
  seen through what \<open>json.loads(x) if x else {}\<close> makes of it: it is empty (\<open>NULL\<close> or
  the empty string), or a text that the decoder turns into a value or refuses with
  \<open>JSONDecodeError\<close>, or a value that the client has decoded already.  The \<open>print\<close>
  calls of the function are left out: standard output is taken to accept every line.
\<close>

datatype entity_json = Null_or_empty | Text "json option" | Decoded json

record row =
  entity_type :: string
  row_lg_nr :: string
  row_ulg_nr :: "string option"
  row_grundtext_nr :: "string option"
  row_position_nr :: "string option"
  row_entity_json :: entity_json

text \<open>A nullable text column as a Python value.\<close>

fun column_value :: "string option \<Rightarrow> json" where
  "column_value None = JNull"
| "column_value (Some s) = JStr s"

text \<open>\<open>json.loads(x) if x else {}\<close> inside \<open>try ... except json.JSONDecodeError\<close>:
  \<open>Inr None\<close> is the caught decoding error, after which the record is left out; a value
  that is no string makes \<open>json.loads\<close> raise \<open>TypeError\<close>, which nothing catches.\<close>

fun loads_or_empty :: "entity_json \<Rightarrow> json option result" where
  "loads_or_empty Null_or_empty = Inr (Some (JObj []))"
| "loads_or_empty (Text decoded) = Inr decoded"
| "loads_or_empty (Decoded v) = (if py_truthy v then Inl TypeError else Inr (Some (JObj [])))"

text \<open>A \<open>defaultdict(list)\<close>: \<open>d[key].append(v)\<close> and \<open>d.get(key, [])\<close>.\<close>

fun group_append :: "('k \<times> json list) list \<Rightarrow> 'k \<Rightarrow> json \<Rightarrow> ('k \<times> json list) list" where
  "group_append [] key v = [(key, [v])]"
| "group_append (g # gs) key v =
     (if fst g = key then (key, snd g @ [v]) # gs else g # group_append gs key v)"

definition group_get :: "('k \<times> json list) list \<Rightarrow> 'k \<Rightarrow> json list" where
  "group_get groups key = (case map_of groups key of None \<Rightarrow> [] | Some vs \<Rightarrow> vs)"

text \<open>Step 1: the LG numbers of the position numbers that pass the format check.\<close>

definition requested_lg_nrs :: "string list \<Rightarrow> string set" where
  "requested_lg_nrs position_numbers =
     set (List.map_filter
            (\<lambda>nr. if validate_position_number_format (JStr nr)
                  then map_option info_lg_nr (get_position_info (JStr nr)) else None)
            position_numbers)"

text \<open>Step 3, the four loops over the fetched records.\<close>

fun fps_by_gt ::
  "row list \<Rightarrow> ((string \<times> string option \<times> string option) \<times> json list) list
     \<Rightarrow> ((string \<times> string option \<times> string option) \<times> json list) list result" where
  "fps_by_gt [] groups = Inr groups"
| "fps_by_gt (fp # fp_records) groups =
     bind (loads_or_empty (row_entity_json fp)) (\<lambda>decoded.
       case decoded of
         None \<Rightarrow> fps_by_gt fp_records groups
       | Some fp_json \<Rightarrow>
           bind (py_setitem fp_json ''@_ftnr'' (column_value (row_position_nr fp))) (\<lambda>fp_json.
             fps_by_gt fp_records
               (group_append groups (row_lg_nr fp, row_ulg_nr fp, row_grundtext_nr fp) fp_json)))"

fun gts_by_ulg ::
  "((string \<times> string option \<times> string option) \<times> json list) list \<Rightarrow> row list
     \<Rightarrow> ((string \<times> string option) \<times> json list) list
     \<Rightarrow> ((string \<times> string option) \<times> json list) list result" where
  "gts_by_ulg fps [] groups = Inr groups"
| "gts_by_ulg fps (gt # gt_records) groups =
     bind (loads_or_empty (row_entity_json gt)) (\<lambda>decoded.
       case decoded of
         None \<Rightarrow> gts_by_ulg fps gt_records groups
       | Some gt_json \<Rightarrow>
           bind (py_setitem gt_json ''@_nr'' (column_value (row_grundtext_nr gt))) (\<lambda>gt_json.
           bind (py_setitem gt_json ''folgeposition''
                   (JList (group_get fps (row_lg_nr gt, row_ulg_nr gt, row_grundtext_nr gt))))
             (\<lambda>gt_json.
               gts_by_ulg fps gt_records
                 (group_append groups (row_lg_nr gt, row_ulg_nr gt) gt_json))))"

text \<open>\<open>if key not in x: x[key] = {}\<close>.\<close>

definition ensure_dict :: "json \<Rightarrow> string \<Rightarrow> json result" where
  "ensure_dict x key =
     bind (py_contains key x) (\<lambda>has. if has then Inr x else py_setitem x key (JObj []))"

fun ulgs_by_lg ::
  "((string \<times> string option) \<times> json list) list \<Rightarrow> row list
     \<Rightarrow> (string \<times> json list) list \<Rightarrow> (string \<times> json list) list result" where
  "ulgs_by_lg gts [] groups = Inr groups"
| "ulgs_by_lg gts (ulg # ulg_records) groups =
     bind (loads_or_empty (row_entity_json ulg)) (\<lambda>decoded.
       case decoded of
         None \<Rightarrow> ulgs_by_lg gts ulg_records groups
       | Some ulg_json \<Rightarrow>
           bind (py_setitem ulg_json ''@_nr'' (column_value (row_ulg_nr ulg))) (\<lambda>ulg_json.
           bind (ensure_dict ulg_json ''positionen'') (\<lambda>ulg_json.
           bind (set_nested ulg_json ''positionen'' ''grundtextnr''
                   (JList (group_get gts (row_lg_nr ulg, row_ulg_nr ulg))))
             (\<lambda>ulg_json.
               ulgs_by_lg gts ulg_records (group_append groups (row_lg_nr ulg) ulg_json)))))"

text \<open>The dictionary \<open>lg_data\<close>, from LG number to the assembled LG, in insertion
  order.\<close>

fun lg_data_of ::
  "(string \<times> json list) list \<Rightarrow> row list \<Rightarrow> (string \<times> json) list \<Rightarrow> (string \<times> json) list result" where
  "lg_data_of ulgs [] lg_data = Inr lg_data"
| "lg_data_of ulgs (lg # lg_records) lg_data =
     bind (loads_or_empty (row_entity_json lg)) (\<lambda>decoded.
       case decoded of
         None \<Rightarrow> lg_data_of ulgs lg_records lg_data
       | Some lg_json \<Rightarrow>
           bind (py_setitem lg_json ''@_nr'' (JStr (row_lg_nr lg))) (\<lambda>lg_json.
           bind (ensure_dict lg_json ''ulg-liste'') (\<lambda>lg_json.
           bind (set_nested lg_json ''ulg-liste'' ''ulg'' (JList (group_get ulgs (row_lg_nr lg))))
             (\<lambda>lg_json.
               lg_data_of ulgs lg_records (dict_set lg_data (row_lg_nr lg) lg_json)))))"

definition reconstruct ::
  "row list \<Rightarrow> row list \<Rightarrow> row list \<Rightarrow> row list \<Rightarrow> (string \<times> json) list result" where
  "reconstruct lg_records ulg_records gt_records fp_records =
     bind (fps_by_gt fp_records []) (\<lambda>fps.
     bind (gts_by_ulg fps gt_records []) (\<lambda>gts.
     bind (ulgs_by_lg gts ulg_records []) (\<lambda>ulgs.
       lg_data_of ulgs lg_records [])))"

text \<open>Step 4 for more than one LG: the loop over \<open>lg_data.items()\<close>.\<close>

definition starts_with :: "string \<Rightarrow> string \<Rightarrow> bool" where
  "starts_with s p = (take (length p) s = p)"

definition has_ulgs :: "json \<Rightarrow> bool result" where
  "has_ulgs filtered_lg =
     bind (has_nested filtered_lg ''ulg-liste'' ''ulg'') (\<lambda>has.
       if has then bind (get_nested filtered_lg ''ulg-liste'' ''ulg'') (\<lambda>ulgs. Inr (py_truthy ulgs))
       else Inr False)"

fun filtered_lgs_of :: "(string \<times> json) list \<Rightarrow> string list \<Rightarrow> json list result" where
  "filtered_lgs_of [] position_numbers = Inr []"
| "filtered_lgs_of ((lg_nr, lg_json) # items) position_numbers =
     (let lg_specific_positions = filter (\<lambda>pos. starts_with pos lg_nr) position_numbers in
      if lg_specific_positions \<noteq> [] then
        bind (filter_json_by_full_nr lg_json lg_specific_positions) (\<lambda>filtered_lg.
        bind (has_ulgs filtered_lg) (\<lambda>keep.
        bind (filtered_lgs_of items position_numbers) (\<lambda>rest.
          Inr (if keep then filtered_lg # rest else rest))))
      else filtered_lgs_of items position_numbers)"

text \<open>
  \<open>filtered_lgs.sort(key=lambda lg: lg.get('@_nr', ''))\<close>: the keys are computed first,
  then the list is sorted on them, stably.  A list of fewer than two elements is not
  compared at all.  Every assembled LG carries the string \<open>lg_nr\<close> under \<open>@_nr\<close>, so the
  keys that are compared are strings, compared character by character; a key of another
  kind stands for the \<open>TypeError\<close> of the comparison.
\<close>

fun sort_keys :: "json list \<Rightarrow> json list result" where
  "sort_keys [] = Inr []"
| "sort_keys (lg # lgs) =
     bind (py_get_default lg ''@_nr'' (JStr [])) (\<lambda>k.
     bind (sort_keys lgs) (\<lambda>ks. Inr (k # ks)))"

fun string_keys :: "json list \<Rightarrow> string list result" where
  "string_keys [] = Inr []"
| "string_keys (JStr s # ks) = bind (string_keys ks) (\<lambda>ss. Inr (s # ss))"
| "string_keys (k # ks) = Inl TypeError"

definition sort_by_nr :: "json list \<Rightarrow> json list result" where
  "sort_by_nr lgs =
     bind (sort_keys lgs) (\<lambda>keys.
       if length lgs < 2 then Inr lgs
       else bind (string_keys keys) (\<lambda>nrs. Inr (map snd (sort_key fst (zip nrs lgs)))))"

text \<open>Step 4: one assembled LG, more than one, or none.\<close>

definition filter_reconstructed :: "(string \<times> json) list \<Rightarrow> string list \<Rightarrow> json result" where
  "filter_reconstructed lg_data position_numbers =
     (case lg_data of
        [] \<Rightarrow> Inr (JObj [])
      | [item] \<Rightarrow> filter_json_by_full_nr (snd item) position_numbers
      | _ \<Rightarrow>
          bind (filtered_lgs_of lg_data position_numbers) (\<lambda>filtered_lgs.
          bind (sort_by_nr filtered_lgs) (\<lambda>sorted_lgs. Inr (JList sorted_lgs))))"

text \<open>
  \<open>fetch_and_filter_lg_by_position_numbers_v2\<close>.  The environment is a parameter:
  \<open>credentials\<close> says whether both Supabase settings are present, and \<open>fetch\<close> gives, for
  the set of requested LG numbers, the records of the four bulk queries (LG, ULG,
  Grundtext, Folgeposition), or \<open>None\<close> when a query raises.
\<close>

definition fetch_and_filter_lg_by_position_numbers_v2 ::
  "bool \<Rightarrow> (string set \<Rightarrow> (row list \<times> row list \<times> row list \<times> row list) option)
     \<Rightarrow> string list \<Rightarrow> json result" where
  "fetch_and_filter_lg_by_position_numbers_v2 credentials fetch position_numbers =
     (if position_numbers = [] then Inr (JObj [])
      else if \<not> credentials then Inr (JObj [])
      else
        (let lg_nrs = requested_lg_nrs position_numbers in
         if lg_nrs = {} then Inr (JObj [])
         else
           (case fetch lg_nrs of
              None \<Rightarrow> Inr (JObj [])
            | Some (lg_records, ulg_records, gt_records, fp_records) \<Rightarrow>
                bind (reconstruct lg_records ulg_records gt_records fp_records) (\<lambda>lg_data.
                  filter_reconstructed lg_data position_numbers))))"

text \<open>The position numbers that start with an LG number, and the number an LG carries.\<close>

definition lg_specific :: "string list \<Rightarrow> string \<Rightarrow> string list" where
  "lg_specific position_numbers lg_nr = filter (\<lambda>pos. starts_with pos lg_nr) position_numbers"

definition nr_of :: "json \<Rightarrow> string" where
  "nr_of lg = (case py_get lg ''@_nr'' of Inr (JStr s) \<Rightarrow> s | _ \<Rightarrow> [])"

subsection \<open>The storage\<close>

text \<open>
  Modelled from the spec: the Storage collaborator, which is not part of the repository.
  A read is an exact match on \<open>entityType\<close> plus the set of needed LG numbers; the three
  child queries ask for ascending order of one number column (\<open>NULL\<close> last), and rows
  with equal numbers stay in table order.
\<close>

definition query :: "row list \<Rightarrow> string \<Rightarrow> string set \<Rightarrow> row list" where
  "query table kind lg_nrs = filter (\<lambda>r. entity_type r = kind \<and> row_lg_nr r \<in> lg_nrs) table"

definition ordered_by :: "(row \<Rightarrow> string option) \<Rightarrow> row list \<Rightarrow> row list" where
  "ordered_by column rows =
     sort_key (\<lambda>r. the (column r)) (filter (\<lambda>r. column r \<noteq> None) rows) @
     filter (\<lambda>r. column r = None) rows"

definition table_fetch ::
  "row list \<Rightarrow> string set \<Rightarrow> (row list \<times> row list \<times> row list \<times> row list) option" where
  "table_fetch table lg_nrs =
     Some (query table ''LG'' lg_nrs,
           ordered_by row_ulg_nr (query table ''ULG'' lg_nrs),
           ordered_by row_grundtext_nr (query table ''Grundtext'' lg_nrs),
           ordered_by row_position_nr (query table ''Folgeposition'' lg_nrs))"

section \<open>Flattening a tree into rows: \<open>process_and_store_data\<close>\<close>

text \<open>
  One document per node, in the order of the tree.  Of a document the model keeps the
  type, the four number columns (whatever \<open>.get\<close> returned for them) and \<open>entity_json\<close>.
  The texts that are embedded are not computed; the reads that prepare them are kept,
  because \<open>.get\<close> raises on a value that is no dictionary.
\<close>

record document =
  doc_entity_type :: string
  doc_lg_nr :: json
  doc_ulg_nr :: json
  doc_grundtext_nr :: json
  doc_position_nr :: json
  doc_entity_json :: json

text \<open>\<open>if isinstance(x, dict): x = [x]\<close>.\<close>

definition as_list :: "json \<Rightarrow> json" where
  "as_list x = (case x of JObj kvs \<Rightarrow> JList [x] | _ \<Rightarrow> x)"

text \<open>The loop over the Folgepositionen of a Grundtext.\<close>

fun folgeposition_documents :: "json \<Rightarrow> json \<Rightarrow> json \<Rightarrow> json list \<Rightarrow> document list result" where
  "folgeposition_documents lg_nr ulg_nr gt_nr [] = Inr []"
| "folgeposition_documents lg_nr ulg_nr gt_nr (pos # positions) =
     bind (py_get pos ''@_ftnr'') (\<lambda>pos_nr.
     bind (py_get_default pos ''pos-eigenschaften'' (JObj [])) (\<lambda>pos_eigenschaften.
     bind (py_get_default pos_eigenschaften ''stichwort'' (JStr [])) (\<lambda>pos_stichwort.
     bind (folgeposition_documents lg_nr ulg_nr gt_nr positions) (\<lambda>docs.
       Inr (\<lparr> doc_entity_type = ''Folgeposition'', doc_lg_nr = lg_nr, doc_ulg_nr = ulg_nr,
              doc_grundtext_nr = gt_nr, doc_position_nr = pos_nr,
              doc_entity_json = preserve_json_order pos \<rparr> # docs)))))"

text \<open>The loop over the undivided positions of a Grundtext; each document stores the
  whole parent \<open>gt\<close>.\<close>

fun ungeteilteposition_documents ::
  "json \<Rightarrow> json \<Rightarrow> json \<Rightarrow> json \<Rightarrow> json list \<Rightarrow> document list result" where
  "ungeteilteposition_documents lg_nr ulg_nr gt_nr gt [] = Inr []"
| "ungeteilteposition_documents lg_nr ulg_nr gt_nr gt (pos # ungeteilte_positionen) =
     bind (py_get pos ''@_mfv'') (\<lambda>pos_nr.
     bind (py_get_default pos ''pos-eigenschaften'' (JObj [])) (\<lambda>pos_eigenschaften.
     bind (py_get_default pos_eigenschaften ''stichwort'' (JStr [])) (\<lambda>pos_stichwort.
     bind (ungeteilteposition_documents lg_nr ulg_nr gt_nr gt ungeteilte_positionen) (\<lambda>docs.
       Inr (\<lparr> doc_entity_type = ''UngeteiltePosition'', doc_lg_nr = lg_nr, doc_ulg_nr = ulg_nr,
              doc_grundtext_nr = gt_nr, doc_position_nr = pos_nr,
              doc_entity_json = preserve_json_order gt \<rparr> # docs)))))"

text \<open>\<open>if "grundtext" in gt: ...\<close>: the document of the Grundtext and those of its
  Folgepositionen.\<close>

definition grundtext_documents :: "json \<Rightarrow> json \<Rightarrow> json \<Rightarrow> json \<Rightarrow> document list result" where
  "grundtext_documents lg_nr ulg_nr gt_nr gt =
     bind (py_contains ''grundtext'' gt) (\<lambda>has.
       if has then
         bind (py_get_default gt ''grundtext'' (JObj [])) (\<lambda>grundtext.
         bind (py_get_default gt ''folgeposition'' (JList [])) (\<lambda>positions.
         bind (py_iter (as_list positions)) (\<lambda>positions.
         bind (folgeposition_documents lg_nr ulg_nr gt_nr positions) (\<lambda>docs.
           Inr (\<lparr> doc_entity_type = ''Grundtext'', doc_lg_nr = lg_nr, doc_ulg_nr = ulg_nr,
                  doc_grundtext_nr = gt_nr, doc_position_nr = JNull,
                  doc_entity_json = preserve_json_order gt \<rparr> # docs)))))
       else Inr [])"

text \<open>The loop over the Grundtexte of a ULG.\<close>

fun grundtextnr_documents :: "json \<Rightarrow> json \<Rightarrow> json list \<Rightarrow> document list result" where
  "grundtextnr_documents lg_nr ulg_nr [] = Inr []"
| "grundtextnr_documents lg_nr ulg_nr (gt # grundtexte) =
     bind (py_get gt ''@_nr'') (\<lambda>gt_nr.
     bind (py_get_default gt ''ungeteilteposition'' (JList [])) (\<lambda>ungeteilte_positionen.
     bind (py_iter (as_list ungeteilte_positionen)) (\<lambda>ungeteilte_positionen.
     bind (ungeteilteposition_documents lg_nr ulg_nr gt_nr gt ungeteilte_positionen) (\<lambda>up_docs.
     bind (grundtext_documents lg_nr ulg_nr gt_nr gt) (\<lambda>gt_docs.
     bind (grundtextnr_documents lg_nr ulg_nr grundtexte) (\<lambda>docs.
       Inr (up_docs @ gt_docs @ docs)))))))"

text \<open>The loop over the ULGs of an LG.\<close>

fun ulg_documents :: "json \<Rightarrow> json list \<Rightarrow> document list result" where
  "ulg_documents lg_nr [] = Inr []"
| "ulg_documents lg_nr (ulg # ulgs) =
     bind (py_get ulg ''@_nr'') (\<lambda>ulg_nr.
     bind (py_get_default ulg ''ulg-eigenschaften'' (JObj [])) (\<lambda>ulg_eigenschaften.
     bind (py_get_default ulg_eigenschaften ''ueberschrift'' (JStr [])) (\<lambda>ulg_ueberschrift.
     bind (py_get_default ulg_eigenschaften ''vorbemerkung'' (JObj [])) (\<lambda>ulg_vorbemerkung.
     bind (py_get_default ulg ''positionen'' (JObj [])) (\<lambda>positionen.
     bind (py_get_default positionen ''grundtextnr'' (JList [])) (\<lambda>grundtexte.
     bind (py_iter (as_list grundtexte)) (\<lambda>grundtexte.
     bind (grundtextnr_documents lg_nr ulg_nr grundtexte) (\<lambda>gt_docs.
     bind (ulg_documents lg_nr ulgs) (\<lambda>docs.
       Inr (\<lparr> doc_entity_type = ''ULG'', doc_lg_nr = lg_nr, doc_ulg_nr = ulg_nr,
              doc_grundtext_nr = JNull, doc_position_nr = JNull,
              doc_entity_json = preserve_json_order ulg \<rparr> # gt_docs @ docs))))))))))"

text \<open>The loop over the payload: \<open>documents_to_store\<close> at its end.\<close>

fun documents_to_store :: "json list \<Rightarrow> document list result" where
  "documents_to_store [] = Inr []"
| "documents_to_store (lg # full_json_payload) =
     bind (py_get lg ''@_nr'') (\<lambda>lg_nr.
     bind (py_get_default lg ''lg-eigenschaften'' (JObj [])) (\<lambda>lg_eigenschaften.
     bind (py_get_default lg_eigenschaften ''ueberschrift'' (JStr [])) (\<lambda>lg_ueberschrift.
     bind (py_get_default lg_eigenschaften ''vorbemerkung'' (JObj [])) (\<lambda>lg_vorbemerkung.
     bind (py_get_default lg_eigenschaften ''kommentar'' (JObj [])) (\<lambda>lg_kommentar.
     bind (py_get_default lg ''ulg-liste'' (JObj [])) (\<lambda>ulg_liste.
     bind (py_get_default ulg_liste ''ulg'' (JList [])) (\<lambda>ulgs.
     bind (py_iter (as_list ulgs)) (\<lambda>ulgs.
     bind (ulg_documents lg_nr ulgs) (\<lambda>ulg_docs.
     bind (documents_to_store full_json_payload) (\<lambda>docs.
       Inr (\<lparr> doc_entity_type = ''LG'', doc_lg_nr = lg_nr, doc_ulg_nr = JNull,
              doc_grundtext_nr = JNull, doc_position_nr = JNull,
              doc_entity_json = preserve_json_order lg \<rparr> # ulg_docs @ docs)))))))))))"

text \<open>
  \<open>valid_documents\<close>: the documents with a non-empty embedding.  The embedding service is
  outside the program; \<open>embedded i\<close> says whether it returned an embedding for the text
  of document number \<open>i\<close>.
\<close>

definition valid_documents :: "(nat \<Rightarrow> bool) \<Rightarrow> document list \<Rightarrow> document list" where
  "valid_documents embedded docs =
     map snd (filter (\<lambda>p. embedded (fst p)) (zip [0 ..< length docs] docs))"

text \<open>\<open>process_and_store_data\<close>: the documents it hands to the storage, in the order
  of the chunks.\<close>

definition process_and_store_data :: "(nat \<Rightarrow> bool) \<Rightarrow> json list \<Rightarrow> document list result" where
  "process_and_store_data embedded full_json_payload =
     bind (documents_to_store full_json_payload) (\<lambda>docs. Inr (valid_documents embedded docs))"

subsection \<open>Insertion into the storage\<close>

text \<open>
  Modelled from the spec: the Storage collaborator, which is not part of the repository.
  The number columns are text columns: a string is stored as it is and \<open>None\<close> as
  \<open>NULL\<close>; what the storage does with a number of another kind is not said (\<open>None\<close>
  below).  The document comes back as its text, which the decoder turns into the value
  that was stored.  A row without an LG number answers none of the queries, which all
  filter on that column, and is left out of the table.
\<close>

fun text_column :: "json \<Rightarrow> string option option" where
  "text_column JNull = Some None"
| "text_column (JStr s) = Some (Some s)"
| "text_column j = None"

definition stored_row :: "document \<Rightarrow> row option option" where
  "stored_row doc =
     (case (text_column (doc_lg_nr doc), text_column (doc_ulg_nr doc),
            text_column (doc_grundtext_nr doc), text_column (doc_position_nr doc)) of
        (Some lg, Some ulg, Some gt, Some pos) \<Rightarrow>
          Some (case lg of
                  None \<Rightarrow> None
                | Some lg_nr \<Rightarrow>
                    Some \<lparr> entity_type = doc_entity_type doc, row_lg_nr = lg_nr, row_ulg_nr = ulg,
                           row_grundtext_nr = gt, row_position_nr = pos,
                           row_entity_json = Text (Some (doc_entity_json doc)) \<rparr>)
      | _ \<Rightarrow> None)"

fun insert_documents :: "document list \<Rightarrow> row list option" where
  "insert_documents [] = Some []"
| "insert_documents (doc # docs) =
     (case stored_row doc of
        None \<Rightarrow> None
      | Some r \<Rightarrow>
          (case insert_documents docs of
             None \<Rightarrow> None
           | Some table \<Rightarrow> Some (case r of None \<Rightarrow> table | Some new_row \<Rightarrow> new_row # table)))"

section \<open>The two filters on a store of objects\<close>

text \<open>
  Dictionaries and lists are objects with an identity: a variable or a container holds a
  reference, and a change made through one reference is seen through every other.  The
  store is the list of all objects, an address is an index into it, and a new object goes
  to the end.  Strings, numbers, booleans and \<open>None\<close> are values.
\<close>

datatype pval = PNull | PBool bool | PInt int | PStr string | PRef nat

datatype obj = ODict "(string \<times> pval) list" | OList "pval list"

type_synonym store = "obj list"

text \<open>A statement runs on a store and ends with a value or an exception; the store it
  leaves is there in both cases.\<close>

type_synonym 'a prog = "store \<Rightarrow> 'a result \<times> store"

definition ret :: "'a \<Rightarrow> 'a prog" where
  "ret x = (\<lambda>h. (Inr x, h))"

definition raise :: "py_error \<Rightarrow> 'a prog" where
  "raise e = (\<lambda>h. (Inl e, h))"

definition seq :: "'a prog \<Rightarrow> ('a \<Rightarrow> 'b prog) \<Rightarrow> 'b prog" where
  "seq m f = (\<lambda>h. case m h of (Inl e, h') \<Rightarrow> (Inl e, h') | (Inr x, h') \<Rightarrow> f x h')"

definition obj_at :: "store \<Rightarrow> nat \<Rightarrow> obj option" where
  "obj_at h a = (if a < length h then Some (h ! a) else None)"

text \<open>A new list object and a new dictionary object.\<close>

definition new_list :: "pval list \<Rightarrow> pval prog" where
  "new_list xs = (\<lambda>h. (Inr (PRef (length h)), h @ [OList xs]))"

definition new_dict :: "(string \<times> pval) list \<Rightarrow> pval prog" where
  "new_dict kvs = (\<lambda>h. (Inr (PRef (length h)), h @ [ODict kvs]))"

text \<open>The value a reference stands for, read down to a depth; \<open>None\<close> when the nesting
  is deeper, or when a reference points to no object (which no store built by these
  operations contains).\<close>

fun read_json :: "nat \<Rightarrow> store \<Rightarrow> pval \<Rightarrow> json option" where
  "read_json depth h PNull = Some JNull"
| "read_json depth h (PBool b) = Some (JBool b)"
| "read_json depth h (PInt i) = Some (JInt i)"
| "read_json depth h (PStr s) = Some (JStr s)"
| "read_json 0 h (PRef a) = None"
| "read_json (Suc depth) h (PRef a) =
     (case obj_at h a of
        None \<Rightarrow> None
      | Some (OList xs) \<Rightarrow> map_option JList (those (map (read_json depth h) xs))
      | Some (ODict kvs) \<Rightarrow>
          map_option JObj
            (those (map (\<lambda>kv. map_option (Pair (fst kv)) (read_json depth h (snd kv))) kvs)))"

subsection \<open>The operations on objects\<close>

text \<open>\<open>k in x\<close>.  An element of a list that is a dictionary or a list is never equal to
  the string.\<close>

definition h_contains :: "string \<Rightarrow> pval \<Rightarrow> bool prog" where
  "h_contains k x = (\<lambda>h.
     (case x of
        PRef a \<Rightarrow>
          (case obj_at h a of
             Some (ODict kvs) \<Rightarrow> Inr (dict_has kvs k)
           | Some (OList xs) \<Rightarrow> Inr (PStr k \<in> set xs)
           | None \<Rightarrow> Inl TypeError)
      | PStr s \<Rightarrow> Inr (is_substring k s)
      | _ \<Rightarrow> Inl TypeError, h))"

definition h_get_default :: "pval \<Rightarrow> string \<Rightarrow> pval \<Rightarrow> pval prog" where
  "h_get_default x k d = (\<lambda>h.
     (case x of
        PRef a \<Rightarrow>
          (case obj_at h a of
             Some (ODict kvs) \<Rightarrow> Inr (case map_of kvs k of None \<Rightarrow> d | Some v \<Rightarrow> v)
           | _ \<Rightarrow> Inl AttributeError)
      | _ \<Rightarrow> Inl AttributeError, h))"

definition h_get :: "pval \<Rightarrow> string \<Rightarrow> pval prog" where
  "h_get x k = h_get_default x k PNull"

definition h_getitem :: "pval \<Rightarrow> string \<Rightarrow> pval prog" where
  "h_getitem x k = (\<lambda>h.
     (case x of
        PRef a \<Rightarrow>
          (case obj_at h a of
             Some (ODict kvs) \<Rightarrow> (case map_of kvs k of None \<Rightarrow> Inl KeyError | Some v \<Rightarrow> Inr v)
           | _ \<Rightarrow> Inl TypeError)
      | _ \<Rightarrow> Inl TypeError, h))"

text \<open>\<open>x[k] = v\<close> changes the dictionary object in place.\<close>

definition h_setitem :: "pval \<Rightarrow> string \<Rightarrow> pval \<Rightarrow> unit prog" where
  "h_setitem x k v = (\<lambda>h.
     case x of
       PRef a \<Rightarrow>
         (case obj_at h a of
            Some (ODict kvs) \<Rightarrow> (Inr (), h[a := ODict (dict_set kvs k v)])
          | _ \<Rightarrow> (Inl TypeError, h))
     | _ \<Rightarrow> (Inl TypeError, h))"

text \<open>\<open>x.append(v)\<close> changes the list object in place.\<close>

definition h_append :: "pval \<Rightarrow> pval \<Rightarrow> unit prog" where
  "h_append x v = (\<lambda>h.
     case x of
       PRef a \<Rightarrow>
         (case obj_at h a of
            Some (OList xs) \<Rightarrow> (Inr (), h[a := OList (xs @ [v])])
          | _ \<Rightarrow> (Inl AttributeError, h))
     | _ \<Rightarrow> (Inl AttributeError, h))"

text \<open>The elements a \<open>for\<close> loop runs over.  None of the loops below changes the
  container it runs over, so the elements are those at the start of the loop.\<close>

definition h_iter :: "pval \<Rightarrow> pval list prog" where
  "h_iter x = (\<lambda>h.
     (case x of
        PRef a \<Rightarrow>
          (case obj_at h a of
             Some (OList xs) \<Rightarrow> Inr xs
           | Some (ODict kvs) \<Rightarrow> Inr (map (\<lambda>kv. PStr (fst kv)) kvs)
           | None \<Rightarrow> Inl TypeError)
      | PStr s \<Rightarrow> Inr (map (\<lambda>c. PStr [c]) s)
      | _ \<Rightarrow> Inl TypeError, h))"

definition h_truthy :: "pval \<Rightarrow> bool prog" where
  "h_truthy x = (\<lambda>h.
     (Inr (case x of
             PNull \<Rightarrow> False
           | PBool b \<Rightarrow> b
           | PInt i \<Rightarrow> i \<noteq> 0
           | PStr s \<Rightarrow> s \<noteq> []
           | PRef a \<Rightarrow>
               (case obj_at h a of
                  Some (ODict kvs) \<Rightarrow> kvs \<noteq> []
                | Some (OList xs) \<Rightarrow> xs \<noteq> []
                | None \<Rightarrow> False)), h))"

text \<open>\<open>str(x)\<close>; the text of a container is the text of the value it stands for, and a
  nesting deeper than the recursion limit \<open>depth\<close> ends in \<open>RecursionError\<close>.\<close>

definition h_str :: "nat \<Rightarrow> pval \<Rightarrow> string prog" where
  "h_str depth x = (\<lambda>h.
     (case read_json depth h x of
        Some j \<Rightarrow> Inr (py_str j)
      | None \<Rightarrow> Inl RecursionError, h))"

text \<open>
  \<open>copy.deepcopy\<close>.  A value is its own copy.  For an object, the copy is a new object;
  the memo (from the address of an original to the address of its copy) makes an object
  that is reached twice be copied once.  A nesting deeper than \<open>depth\<close> ends in
  \<open>RecursionError\<close>.  A reference to no object is returned as it is.
\<close>

fun copy_val ::
      "nat \<Rightarrow> pval \<Rightarrow> (nat \<rightharpoonup> nat) \<times> store \<Rightarrow> pval result \<times> (nat \<rightharpoonup> nat) \<times> store"
  and copy_vals ::
      "nat \<Rightarrow> pval list \<Rightarrow> (nat \<rightharpoonup> nat) \<times> store \<Rightarrow> pval list result \<times> (nat \<rightharpoonup> nat) \<times> store"
  and copy_items ::
      "nat \<Rightarrow> (string \<times> pval) list \<Rightarrow> (nat \<rightharpoonup> nat) \<times> store
         \<Rightarrow> (string \<times> pval) list result \<times> (nat \<rightharpoonup> nat) \<times> store"
where
  "copy_val depth PNull s = (Inr PNull, s)"
| "copy_val depth (PBool b) s = (Inr (PBool b), s)"
| "copy_val depth (PInt i) s = (Inr (PInt i), s)"
| "copy_val depth (PStr t) s = (Inr (PStr t), s)"
| "copy_val 0 (PRef a) s = (Inl RecursionError, s)"
| "copy_val (Suc depth) (PRef a) (memo, h) =
     (case memo a of
        Some b \<Rightarrow> (Inr (PRef b), memo, h)
      | None \<Rightarrow>
          (case obj_at h a of
             None \<Rightarrow> (Inr (PRef a), memo, h)
           | Some (OList xs) \<Rightarrow>
               (let b = length h in
                case copy_vals depth xs (memo(a \<mapsto> b), h @ [OList []]) of
                  (Inl e, s') \<Rightarrow> (Inl e, s')
                | (Inr ys, memo', h') \<Rightarrow> (Inr (PRef b), memo', h'[b := OList ys]))
           | Some (ODict kvs) \<Rightarrow>
               (let b = length h in
                case copy_items depth kvs (memo(a \<mapsto> b), h @ [ODict []]) of
                  (Inl e, s') \<Rightarrow> (Inl e, s')
                | (Inr kvs', memo', h') \<Rightarrow> (Inr (PRef b), memo', h'[b := ODict kvs']))))"
| "copy_vals depth [] s = (Inr [], s)"
| "copy_vals depth (x # xs) s =
     (case copy_val depth x s of
        (Inl e, s') \<Rightarrow> (Inl e, s')
      | (Inr y, s') \<Rightarrow>
          (case copy_vals depth xs s' of
             (Inl e, s'') \<Rightarrow> (Inl e, s'')
           | (Inr ys, s'') \<Rightarrow> (Inr (y # ys), s'')))"
| "copy_items depth [] s = (Inr [], s)"
| "copy_items depth (kv # kvs) s =
     (case copy_val depth (snd kv) s of
        (Inl e, s') \<Rightarrow> (Inl e, s')
      | (Inr y, s') \<Rightarrow>
          (case copy_items depth kvs s' of
             (Inl e, s'') \<Rightarrow> (Inl e, s'')
           | (Inr kvs', s'') \<Rightarrow> (Inr ((fst kv, y) # kvs'), s'')))"

definition h_deepcopy :: "nat \<Rightarrow> pval \<Rightarrow> pval prog" where
  "h_deepcopy depth x = (\<lambda>h. case copy_val depth x (Map.empty, h) of (r, memo, h') \<Rightarrow> (r, h'))"

text \<open>\<open>k1 in x and k2 in x[k1]\<close>, \<open>x[k1][k2]\<close> and \<open>x[k1][k2] = v\<close>.\<close>

definition h_has_nested :: "pval \<Rightarrow> string \<Rightarrow> string \<Rightarrow> bool prog" where
  "h_has_nested x k1 k2 =
     seq (h_contains k1 x) (\<lambda>has_k1.
       if has_k1 then seq (h_getitem x k1) (\<lambda>d. h_contains k2 d) else ret False)"

definition h_get_nested :: "pval \<Rightarrow> string \<Rightarrow> string \<Rightarrow> pval prog" where
  "h_get_nested x k1 k2 = seq (h_getitem x k1) (\<lambda>d. h_getitem d k2)"

definition h_set_nested :: "pval \<Rightarrow> string \<Rightarrow> string \<Rightarrow> pval \<Rightarrow> unit prog" where
  "h_set_nested x k1 k2 v = seq (h_getitem x k1) (\<lambda>d. h_setitem d k2 v)"

text \<open>\<open>x[k1][k2] = xs\<close> for a list \<open>xs\<close> that the function has built: the list becomes an
  object when it is stored.\<close>

definition h_store_list :: "pval \<Rightarrow> string \<Rightarrow> string \<Rightarrow> pval list \<Rightarrow> unit prog" where
  "h_store_list x k1 k2 xs = seq (new_list xs) (\<lambda>l. h_set_nested x k1 k2 l)"

text \<open>
  \<open>print(text)\<close>.  Standard output is outside the program: \<open>stdout text\<close> is the
  exception that writing the line raises there (an encoding that lacks one of its
  characters, a closed stream), or \<open>None\<close> when the line is written.
\<close>

definition h_print :: "(string \<Rightarrow> py_error option) \<Rightarrow> string \<Rightarrow> unit prog" where
  "h_print stdout text = (\<lambda>h. (case stdout text of None \<Rightarrow> Inr () | Some e \<Rightarrow> Inl e, h))"

subsection \<open>\<open>filter_json_entity\<close> on the store\<close>

text \<open>The lines that \<open>filter_json_entity\<close> prints.\<close>

definition ulg_liste_warning :: string where
  "ulg_liste_warning =
     ''Warning: 'ulg-liste' or 'ulg' not found in LG JSON for ULG filtering. Resulting 'ulg' list will be empty.''"

definition positionen_warning :: string where
  "positionen_warning =
     ''Warning: 'positionen' or 'grundtextnr' not found in ULG JSON. Resulting 'grundtextnr' list will be empty.''"

definition folgeposition_warning :: string where
  "folgeposition_warning =
     ''Warning: 'folgeposition' not found in Grundtext JSON. Resulting 'folgeposition' list will be empty.''"

definition invalid_target_type_message :: "level \<Rightarrow> string \<Rightarrow> string" where
  "invalid_target_type_message lv target_entity_type =
     ''Error: Invalid target_entity_type '' @ [CHR 0x27] @ target_entity_type @ [CHR 0x27] @
     (case lv of
        LG_level \<Rightarrow> '' for LG level JSON. Must be 'ULG', 'Grundtext', or 'Folgeposition'. Returning original input.''
      | ULG_level \<Rightarrow> '' for ULG level JSON. Must be 'Grundtext' or 'Folgeposition'. Returning original input.''
      | Grundtext_level \<Rightarrow> '' for Grundtext level JSON. Must be 'Folgeposition'. Returning original input.'')"

definition unrecognised_message :: string where
  "unrecognised_message =
     ''Error: Input JSON does not seem to be a valid LG, ULG, or Grundtext structure. Returning original input.''"

fun h_find_single :: "nat \<Rightarrow> pval list \<Rightarrow> string \<Rightarrow> string \<Rightarrow> pval list prog" where
  "h_find_single depth [] key_name value_to_find = ret []"
| "h_find_single depth (entity # rest) key_name value_to_find =
     seq (h_get entity key_name) (\<lambda>x.
     seq (h_str depth x) (\<lambda>s.
       if s = value_to_find then ret [entity]
       else h_find_single depth rest key_name value_to_find))"

definition h_find_and_filter_single :: "nat \<Rightarrow> pval \<Rightarrow> string \<Rightarrow> string \<Rightarrow> pval list prog" where
  "h_find_and_filter_single depth entity_list key_name value_to_find =
     seq (h_iter entity_list) (\<lambda>entities. h_find_single depth entities key_name value_to_find)"

definition h_skipped :: "nat \<Rightarrow> pval \<Rightarrow> string option \<Rightarrow> bool prog" where
  "h_skipped depth entity target_nr =
     (case target_nr of
        None \<Rightarrow> ret False
      | Some nr \<Rightarrow> seq (h_get entity ''@_nr'') (\<lambda>x. seq (h_str depth x) (\<lambda>s. ret (s \<noteq> nr))))"

fun h_folgeposition_in_grundtexts ::
  "nat \<Rightarrow> pval list \<Rightarrow> string option \<Rightarrow> string \<Rightarrow> pval list prog" where
  "h_folgeposition_in_grundtexts depth [] target_grundtext_nr target_value = ret []"
| "h_folgeposition_in_grundtexts depth (gt # rest) target_grundtext_nr target_value =
     seq (h_skipped depth gt target_grundtext_nr) (\<lambda>skip.
       if skip then h_folgeposition_in_grundtexts depth rest target_grundtext_nr target_value
       else seq (h_contains ''folgeposition'' gt) (\<lambda>has_fp.
         if has_fp then
           seq (h_getitem gt ''folgeposition'') (\<lambda>fps.
           seq (h_find_and_filter_single depth fps ''@_ftnr'' target_value)
             (\<lambda>filtered_fps_for_current_gt.
               if filtered_fps_for_current_gt \<noteq> [] then
                 seq (new_list filtered_fps_for_current_gt) (\<lambda>l.
                 seq (h_setitem gt ''folgeposition'' l) (\<lambda>u. ret [gt]))
               else h_folgeposition_in_grundtexts depth rest target_grundtext_nr target_value))
         else h_folgeposition_in_grundtexts depth rest target_grundtext_nr target_value))"

definition h_folgeposition_in_ulg :: "nat \<Rightarrow> pval \<Rightarrow> string option \<Rightarrow> string \<Rightarrow> pval list prog" where
  "h_folgeposition_in_ulg depth ulg target_grundtext_nr target_value =
     seq (h_has_nested ulg ''positionen'' ''grundtextnr'') (\<lambda>has.
       if has then
         seq (h_get_nested ulg ''positionen'' ''grundtextnr'') (\<lambda>gts.
         seq (h_iter gts) (\<lambda>gt_list.
           h_folgeposition_in_grundtexts depth gt_list target_grundtext_nr target_value))
       else ret [])"

fun h_folgeposition_in_ulgs ::
  "nat \<Rightarrow> pval list \<Rightarrow> string option \<Rightarrow> string option \<Rightarrow> string \<Rightarrow> pval list prog" where
  "h_folgeposition_in_ulgs depth [] target_ulg_nr target_grundtext_nr target_value = ret []"
| "h_folgeposition_in_ulgs depth (ulg # rest) target_ulg_nr target_grundtext_nr target_value =
     seq (h_skipped depth ulg target_ulg_nr) (\<lambda>skip.
       if skip then
         h_folgeposition_in_ulgs depth rest target_ulg_nr target_grundtext_nr target_value
       else seq (h_folgeposition_in_ulg depth ulg target_grundtext_nr target_value)
         (\<lambda>filtered_grundtexts_to_keep.
           if filtered_grundtexts_to_keep \<noteq> [] then
             seq (h_store_list ulg ''positionen'' ''grundtextnr'' filtered_grundtexts_to_keep)
               (\<lambda>u. ret [ulg])
           else
             h_folgeposition_in_ulgs depth rest target_ulg_nr target_grundtext_nr target_value))"

fun h_grundtext_in_ulgs :: "nat \<Rightarrow> pval list \<Rightarrow> string option \<Rightarrow> string \<Rightarrow> pval list prog" where
  "h_grundtext_in_ulgs depth [] target_ulg_nr target_value = ret []"
| "h_grundtext_in_ulgs depth (ulg # rest) target_ulg_nr target_value =
     seq (h_skipped depth ulg target_ulg_nr) (\<lambda>skip.
       if skip then h_grundtext_in_ulgs depth rest target_ulg_nr target_value
       else seq (h_has_nested ulg ''positionen'' ''grundtextnr'') (\<lambda>has.
         if has then
           seq (h_get_nested ulg ''positionen'' ''grundtextnr'') (\<lambda>gts.
           seq (h_find_and_filter_single depth gts ''@_nr'' target_value)
             (\<lambda>filtered_grundtexts_for_current_ulg.
               if filtered_grundtexts_for_current_ulg \<noteq> [] then
                 seq (h_store_list ulg ''positionen'' ''grundtextnr''
                        filtered_grundtexts_for_current_ulg)
                   (\<lambda>u. ret [ulg])
               else h_grundtext_in_ulgs depth rest target_ulg_nr target_value))
         else h_grundtext_in_ulgs depth rest target_ulg_nr target_value))"

definition h_lg_keep_ulg ::
  "nat \<Rightarrow> (string \<Rightarrow> py_error option) \<Rightarrow> pval \<Rightarrow> string \<Rightarrow> pval prog" where
  "h_lg_keep_ulg depth stdout updated_json target_value =
     seq (h_has_nested updated_json ''ulg-liste'' ''ulg'') (\<lambda>has.
     seq (if has then
            seq (h_get_nested updated_json ''ulg-liste'' ''ulg'') (\<lambda>ulgs.
            seq (h_find_and_filter_single depth ulgs ''@_nr'' target_value) (\<lambda>found.
              h_store_list updated_json ''ulg-liste'' ''ulg'' found))
          else
            seq (h_contains ''ulg-liste'' updated_json) (\<lambda>has_liste.
            seq (if has_liste then h_store_list updated_json ''ulg-liste'' ''ulg'' []
                 else
                   seq (new_list []) (\<lambda>l.
                   seq (new_dict [(''ulg'', l)]) (\<lambda>d.
                     h_setitem updated_json ''ulg-liste'' d)))
              (\<lambda>u. h_print stdout ulg_liste_warning)))
       (\<lambda>u. ret updated_json))"

definition h_lg_keep_grundtext :: "nat \<Rightarrow> pval \<Rightarrow> string option \<Rightarrow> string \<Rightarrow> pval prog" where
  "h_lg_keep_grundtext depth updated_json target_ulg_nr target_value =
     seq (h_has_nested updated_json ''ulg-liste'' ''ulg'') (\<lambda>has.
     seq (if has then
            seq (h_get_nested updated_json ''ulg-liste'' ''ulg'') (\<lambda>ulgs.
            seq (h_iter ulgs) (\<lambda>ulg_list.
              h_grundtext_in_ulgs depth ulg_list target_ulg_nr target_value))
          else ret [])
       (\<lambda>filtered_ulgs_to_keep.
     seq (h_store_list updated_json ''ulg-liste'' ''ulg'' filtered_ulgs_to_keep)
       (\<lambda>u. ret updated_json)))"

definition h_lg_keep_folgeposition ::
  "nat \<Rightarrow> pval \<Rightarrow> string option \<Rightarrow> string option \<Rightarrow> string \<Rightarrow> pval prog" where
  "h_lg_keep_folgeposition depth updated_json target_ulg_nr target_grundtext_nr target_value =
     seq (h_has_nested updated_json ''ulg-liste'' ''ulg'') (\<lambda>has.
     seq (if has then
            seq (h_get_nested updated_json ''ulg-liste'' ''ulg'') (\<lambda>ulgs.
            seq (h_iter ulgs) (\<lambda>ulg_list.
              h_folgeposition_in_ulgs depth ulg_list target_ulg_nr target_grundtext_nr
                target_value))
          else ret [])
       (\<lambda>filtered_ulgs_to_keep.
     seq (h_store_list updated_json ''ulg-liste'' ''ulg'' filtered_ulgs_to_keep)
       (\<lambda>u. ret updated_json)))"

definition h_ulg_keep_grundtext ::
  "nat \<Rightarrow> (string \<Rightarrow> py_error option) \<Rightarrow> pval \<Rightarrow> string \<Rightarrow> pval prog" where
  "h_ulg_keep_grundtext depth stdout updated_json target_value =
     seq (h_has_nested updated_json ''positionen'' ''grundtextnr'') (\<lambda>has.
     seq (if has then
            seq (h_get_nested updated_json ''positionen'' ''grundtextnr'') (\<lambda>gts.
            seq (h_find_and_filter_single depth gts ''@_nr'' target_value) (\<lambda>found.
              h_store_list updated_json ''positionen'' ''grundtextnr'' found))
          else
            seq (h_contains ''positionen'' updated_json) (\<lambda>has_positionen.
            seq (if has_positionen then h_store_list updated_json ''positionen'' ''grundtextnr'' []
                 else
                   seq (new_list []) (\<lambda>l.
                   seq (new_dict [(''grundtextnr'', l)]) (\<lambda>d.
                     h_setitem updated_json ''positionen'' d)))
              (\<lambda>u. h_print stdout positionen_warning)))
       (\<lambda>u. ret updated_json))"

definition h_ulg_keep_folgeposition :: "nat \<Rightarrow> pval \<Rightarrow> string option \<Rightarrow> string \<Rightarrow> pval prog" where
  "h_ulg_keep_folgeposition depth updated_json target_grundtext_nr target_value =
     seq (h_folgeposition_in_ulg depth updated_json target_grundtext_nr target_value)
       (\<lambda>filtered_grundtexts_to_keep.
     seq (h_store_list updated_json ''positionen'' ''grundtextnr'' filtered_grundtexts_to_keep)
       (\<lambda>u. ret updated_json))"

definition h_grundtext_keep_folgeposition ::
  "nat \<Rightarrow> (string \<Rightarrow> py_error option) \<Rightarrow> pval \<Rightarrow> string \<Rightarrow> pval prog" where
  "h_grundtext_keep_folgeposition depth stdout updated_json target_value =
     seq (h_contains ''folgeposition'' updated_json) (\<lambda>has.
     seq (if has then
            seq (h_getitem updated_json ''folgeposition'') (\<lambda>fps.
            seq (h_find_and_filter_single depth fps ''@_ftnr'' target_value) (\<lambda>found.
            seq (new_list found) (\<lambda>l. h_setitem updated_json ''folgeposition'' l)))
          else
            seq (new_list []) (\<lambda>l.
            seq (h_setitem updated_json ''folgeposition'' l) (\<lambda>u.
              h_print stdout folgeposition_warning)))
       (\<lambda>u. ret updated_json))"

definition h_has_both :: "pval \<Rightarrow> string \<Rightarrow> string \<Rightarrow> bool prog" where
  "h_has_both x a b =
     seq (h_contains a x) (\<lambda>has_a. if has_a then h_contains b x else ret False)"

text \<open>
  The branches of \<open>filter_json_entity\<close> once the three level tests \<open>is_lg\<close>, \<open>is_ulg\<close> and
  \<open>is_grundtext\<close> are made: the six filters work on the copy \<open>updated_json\<close>, the four
  \<open>else\<close> branches print a line and return \<open>json_input\<close> itself.
\<close>

definition h_zoom_branches ::
  "nat \<Rightarrow> (string \<Rightarrow> py_error option) \<Rightarrow> pval \<Rightarrow> string \<Rightarrow> string \<Rightarrow> string option
     \<Rightarrow> string option \<Rightarrow> pval \<Rightarrow> bool \<Rightarrow> bool \<Rightarrow> bool \<Rightarrow> pval prog" where
  "h_zoom_branches depth stdout json_input target_entity_type target_str ulg_str grundtext_str
     updated_json is_lg is_ulg is_grundtext =
     (if is_lg then
        (if target_entity_type = ''ULG'' then h_lg_keep_ulg depth stdout updated_json target_str
         else if target_entity_type = ''Grundtext'' then
           h_lg_keep_grundtext depth updated_json ulg_str target_str
         else if target_entity_type = ''Folgeposition'' then
           h_lg_keep_folgeposition depth updated_json ulg_str grundtext_str target_str
         else
           seq (h_print stdout (invalid_target_type_message LG_level target_entity_type))
             (\<lambda>u. ret json_input))
      else if is_ulg then
        (if target_entity_type = ''Grundtext'' then
           h_ulg_keep_grundtext depth stdout updated_json target_str
         else if target_entity_type = ''Folgeposition'' then
           h_ulg_keep_folgeposition depth updated_json grundtext_str target_str
         else
           seq (h_print stdout (invalid_target_type_message ULG_level target_entity_type))
             (\<lambda>u. ret json_input))
      else if is_grundtext then
        (if target_entity_type = ''Folgeposition'' then
           h_grundtext_keep_folgeposition depth stdout updated_json target_str
         else
           seq (h_print stdout (invalid_target_type_message Grundtext_level target_entity_type))
             (\<lambda>u. ret json_input))
      else seq (h_print stdout unrecognised_message) (\<lambda>u. ret json_input))"

text \<open>\<open>filter_json_entity\<close>: \<open>json_input\<close> is a reference into the store, and the value is
  the reference that the function returns.  The deep copy comes first, then the three
  level tests, which read the copy.\<close>

definition h_filter_json_entity ::
  "nat \<Rightarrow> (string \<Rightarrow> py_error option) \<Rightarrow> pval \<Rightarrow> string \<Rightarrow> py_key \<Rightarrow> py_key option
     \<Rightarrow> py_key option \<Rightarrow> pval prog" where
  "h_filter_json_entity depth stdout json_input target_entity_type target_value target_ulg_nr
     target_grundtext_nr =
     (let target_str = key_str target_value;
          ulg_str = map_option key_str target_ulg_nr;
          grundtext_str = map_option key_str target_grundtext_nr
      in
      seq (h_deepcopy depth json_input) (\<lambda>updated_json.
      seq (h_has_both updated_json ''lg-eigenschaften'' ''ulg-liste'') (\<lambda>is_lg.
      seq (h_has_both updated_json ''ulg-eigenschaften'' ''positionen'') (\<lambda>is_ulg.
      seq (h_has_both updated_json ''grundtext'' ''folgeposition'') (\<lambda>is_grundtext.
        h_zoom_branches depth stdout json_input target_entity_type target_str ulg_str
          grundtext_str updated_json is_lg is_ulg is_grundtext)))))"

subsection \<open>\<open>filter_json_by_full_nr\<close> on the store\<close>

fun h_find_by_nr :: "nat \<Rightarrow> pval list \<Rightarrow> string \<Rightarrow> pval option prog" where
  "h_find_by_nr depth [] nr = ret None"
| "h_find_by_nr depth (x # xs) nr =
     seq (h_get x ''@_nr'') (\<lambda>v.
     seq (h_str depth v) (\<lambda>s. if s = nr then ret (Some x) else h_find_by_nr depth xs nr))"

text \<open>\<open>if not target: continue\<close> after a search.\<close>

definition h_if_truthy :: "pval option \<Rightarrow> pval option prog" where
  "h_if_truthy found =
     (case found of
        None \<Rightarrow> ret None
      | Some x \<Rightarrow> seq (h_truthy x) (\<lambda>t. ret (if t then Some x else None)))"

text \<open>\<open>x.get(k1, {}).get(k2, [])\<close> as the list a loop runs over; the two defaults are
  new objects.\<close>

definition h_children :: "pval \<Rightarrow> string \<Rightarrow> string \<Rightarrow> pval list prog" where
  "h_children x k1 k2 =
     seq (new_dict []) (\<lambda>d1.
     seq (h_get_default x k1 d1) (\<lambda>inner.
     seq (new_list []) (\<lambda>d2.
     seq (h_get_default inner k2 d2) (\<lambda>children. h_iter children))))"

definition h_find_target_ulg :: "nat \<Rightarrow> pval \<Rightarrow> string \<Rightarrow> pval option prog" where
  "h_find_target_ulg depth json_input ulg_nr =
     seq (h_children json_input ''ulg-liste'' ''ulg'') (\<lambda>ulg_list.
     seq (h_find_by_nr depth ulg_list ulg_nr) h_if_truthy)"

definition h_find_target_gt :: "nat \<Rightarrow> pval \<Rightarrow> string \<Rightarrow> pval option prog" where
  "h_find_target_gt depth target_ulg gt_nr =
     seq (h_children target_ulg ''positionen'' ''grundtextnr'') (\<lambda>gt_list.
     seq (h_find_by_nr depth gt_list gt_nr) h_if_truthy)"

text \<open>\<open>x.append\<close> is looked up before the argument of the call is evaluated.\<close>

definition h_has_append :: "pval \<Rightarrow> unit prog" where
  "h_has_append x = (\<lambda>h.
     (case x of
        PRef a \<Rightarrow> (case obj_at h a of Some (OList xs) \<Rightarrow> Inr () | _ \<Rightarrow> Inl AttributeError)
      | _ \<Rightarrow> Inl AttributeError, h))"

text \<open>\<open>container.append(copy.deepcopy(x))\<close>.\<close>

definition h_append_copy :: "nat \<Rightarrow> pval \<Rightarrow> pval \<Rightarrow> unit prog" where
  "h_append_copy depth container x =
     seq (h_has_append container) (\<lambda>u.
     seq (h_deepcopy depth x) (\<lambda>c. h_append container c))"

definition h_result_ulg_for ::
  "nat \<Rightarrow> pval \<Rightarrow> (string \<times> pval) list \<Rightarrow> string \<Rightarrow> pval
     \<Rightarrow> ((string \<times> pval) list \<times> pval) prog" where
  "h_result_ulg_for depth result added_ulgs ulg_nr target_ulg =
     (case map_of added_ulgs ulg_nr of
        Some result_ulg \<Rightarrow> ret (added_ulgs, result_ulg)
      | None \<Rightarrow>
          seq (h_deepcopy depth target_ulg) (\<lambda>result_ulg.
          seq (h_store_list result_ulg ''positionen'' ''grundtextnr'' []) (\<lambda>u.
          seq (h_get_nested result ''ulg-liste'' ''ulg'') (\<lambda>ulgs.
          seq (h_append ulgs result_ulg) (\<lambda>u.
            ret (dict_set added_ulgs ulg_nr result_ulg, result_ulg))))))"

fun h_find_fp :: "pval list \<Rightarrow> string \<Rightarrow> pval option prog" where
  "h_find_fp [] fp_letter = ret None"
| "h_find_fp (fp # fps) fp_letter =
     seq (h_get fp ''@_ftnr'') (\<lambda>v.
       if v = PStr fp_letter then ret (Some fp) else h_find_fp fps fp_letter)"

fun h_ftnrs :: "pval list \<Rightarrow> pval list prog" where
  "h_ftnrs [] = ret []"
| "h_ftnrs (fp # fps) = seq (h_get fp ''@_ftnr'') (\<lambda>v. seq (h_ftnrs fps) (\<lambda>vs. ret (v # vs)))"

definition h_folgepositionen :: "pval \<Rightarrow> pval list prog" where
  "h_folgepositionen gt =
     seq (new_list []) (\<lambda>d. seq (h_get_default gt ''folgeposition'' d) h_iter)"

text \<open>The copy of the first Folgeposition of \<open>target_gt\<close> with the letter goes to the end
  of \<open>gt["folgeposition"]\<close>.\<close>

definition h_add_letter :: "nat \<Rightarrow> pval \<Rightarrow> string \<Rightarrow> pval \<Rightarrow> unit prog" where
  "h_add_letter depth target_gt fp_letter gt =
     seq (h_folgepositionen target_gt) (\<lambda>target_fps.
     seq (h_find_fp target_fps fp_letter) (\<lambda>found.
       case found of
         Some fp \<Rightarrow> seq (h_getitem gt ''folgeposition'') (\<lambda>fps. h_append_copy depth fps fp)
       | None \<Rightarrow> ret ()))"

definition h_keep_in_ulg :: "nat \<Rightarrow> pval \<Rightarrow> string \<Rightarrow> string \<Rightarrow> pval \<Rightarrow> unit prog" where
  "h_keep_in_ulg depth target_gt gt_nr fp_letter result_ulg =
     seq (h_get_nested result_ulg ''positionen'' ''grundtextnr'') (\<lambda>rgts.
     seq (h_iter rgts) (\<lambda>result_gts.
     seq (h_find_by_nr depth result_gts gt_nr) (\<lambda>found.
     seq (h_if_truthy found) (\<lambda>existing_gt.
       if fp_letter \<noteq> [] then
         (case existing_gt of
            Some hit \<Rightarrow>
              seq (h_folgepositionen hit) (\<lambda>hit_fps.
              seq (h_ftnrs hit_fps) (\<lambda>existing_fps.
                if PStr fp_letter \<notin> set existing_fps then h_add_letter depth target_gt fp_letter hit
                else ret ()))
          | None \<Rightarrow>
              seq (h_deepcopy depth target_gt) (\<lambda>new_gt.
              seq (new_list []) (\<lambda>l.
              seq (h_setitem new_gt ''folgeposition'' l) (\<lambda>u.
              seq (h_add_letter depth target_gt fp_letter new_gt) (\<lambda>u.
              seq (h_get_nested result_ulg ''positionen'' ''grundtextnr'') (\<lambda>gts.
                h_append gts new_gt))))))
       else
         (case existing_gt of
            None \<Rightarrow>
              seq (h_get_nested result_ulg ''positionen'' ''grundtextnr'') (\<lambda>gts.
                h_append_copy depth gts target_gt)
          | Some hit \<Rightarrow> ret ())))))"

text \<open>The lines that the loop of \<open>filter_json_by_full_nr\<close> prints.\<close>

definition skipping_warning :: "string \<Rightarrow> string" where
  "skipping_warning nr = ''Warning: Skipping invalid full number format: '' @ nr"

definition processing_line :: "string \<Rightarrow> string \<Rightarrow> string \<Rightarrow> string \<Rightarrow> string \<Rightarrow> string" where
  "processing_line nr lg_nr ulg_nr gt_nr fp_letter =
     ''Processing '' @ nr @ '': LG='' @ lg_nr @ '', ULG='' @ ulg_nr @ '', GT='' @ gt_nr @
     '', FP='' @ fp_letter"

definition ulg_not_found_warning :: "string \<Rightarrow> string" where
  "ulg_not_found_warning ulg_nr = ''Warning: ULG '' @ ulg_nr @ '' not found in JSON''"

definition grundtext_not_found_warning :: "string \<Rightarrow> string \<Rightarrow> string" where
  "grundtext_not_found_warning gt_nr ulg_nr =
     ''Warning: Grundtext '' @ gt_nr @ '' not found in ULG '' @ ulg_nr"

definition h_keep_round ::
  "nat \<Rightarrow> (string \<Rightarrow> py_error option) \<Rightarrow> pval \<Rightarrow> pval \<Rightarrow> (string \<times> pval) list \<Rightarrow> string
     \<Rightarrow> (string \<times> pval) list prog" where
  "h_keep_round depth stdout json_input result added_ulgs nr =
     (case match_position_nr nr of
        None \<Rightarrow> seq (h_print stdout (skipping_warning nr)) (\<lambda>u. ret added_ulgs)
      | Some (lg_nr, ulg_nr, gt_nr, fp_letter) \<Rightarrow>
          seq (h_print stdout (processing_line nr lg_nr ulg_nr gt_nr fp_letter)) (\<lambda>u.
          seq (h_find_target_ulg depth json_input ulg_nr) (\<lambda>found_ulg.
            case found_ulg of
              None \<Rightarrow> seq (h_print stdout (ulg_not_found_warning ulg_nr)) (\<lambda>u. ret added_ulgs)
            | Some target_ulg \<Rightarrow>
                seq (h_result_ulg_for depth result added_ulgs ulg_nr target_ulg)
                  (\<lambda>(added_ulgs, result_ulg).
                seq (h_find_target_gt depth target_ulg gt_nr) (\<lambda>found_gt.
                  case found_gt of
                    None \<Rightarrow>
                      seq (h_print stdout (grundtext_not_found_warning gt_nr ulg_nr)) (\<lambda>u.
                        ret added_ulgs)
                  | Some target_gt \<Rightarrow>
                      seq (h_keep_in_ulg depth target_gt gt_nr fp_letter result_ulg) (\<lambda>u.
                        ret added_ulgs))))))"

fun h_keep_loop ::
  "nat \<Rightarrow> (string \<Rightarrow> py_error option) \<Rightarrow> pval \<Rightarrow> pval \<Rightarrow> (string \<times> pval) list \<Rightarrow> string list
     \<Rightarrow> (string \<times> pval) list prog" where
  "h_keep_loop depth stdout json_input result added_ulgs [] = ret added_ulgs"
| "h_keep_loop depth stdout json_input result added_ulgs (nr # nrs) =
     seq (h_keep_round depth stdout json_input result added_ulgs nr) (\<lambda>added_ulgs'.
       h_keep_loop depth stdout json_input result added_ulgs' nrs)"

definition h_emptied_copy :: "nat \<Rightarrow> pval \<Rightarrow> pval prog" where
  "h_emptied_copy depth json_input =
     seq (h_deepcopy depth json_input) (\<lambda>result.
     seq (h_has_nested result ''ulg-liste'' ''ulg'') (\<lambda>has.
     seq (if has then h_store_list result ''ulg-liste'' ''ulg'' [] else ret ()) (\<lambda>u.
       ret result)))"

text \<open>\<open>filter_json_by_full_nr\<close>: \<open>json_input\<close> is a reference into the store, and the
  value is the reference that the function returns.\<close>

definition h_filter_json_by_full_nr ::
  "nat \<Rightarrow> (string \<Rightarrow> py_error option) \<Rightarrow> pval \<Rightarrow> string list \<Rightarrow> pval prog" where
  "h_filter_json_by_full_nr depth stdout json_input full_nrs_to_keep =
     (if full_nrs_to_keep = [] then h_emptied_copy depth json_input
      else
        seq (h_emptied_copy depth json_input) (\<lambda>result.
        seq (h_keep_loop depth stdout json_input result [] full_nrs_to_keep) (\<lambda>added_ulgs.
          ret result)))"

subsection \<open>Trees in the store\<close>

text \<open>A JSON value as new objects of the store, for the examples.\<close>

fun alloc_json :: "json \<Rightarrow> store \<Rightarrow> pval \<times> store"
  and alloc_list :: "json list \<Rightarrow> store \<Rightarrow> pval list \<times> store"
  and alloc_items :: "(string \<times> json) list \<Rightarrow> store \<Rightarrow> (string \<times> pval) list \<times> store"
where
  "alloc_json JNull h = (PNull, h)"
| "alloc_json (JBool b) h = (PBool b, h)"
| "alloc_json (JInt i) h = (PInt i, h)"
| "alloc_json (JStr s) h = (PStr s, h)"
| "alloc_json (JList xs) h =
     (case alloc_list xs h of (vs, h') \<Rightarrow> (PRef (length h'), h' @ [OList vs]))"
| "alloc_json (JObj kvs) h =
     (case alloc_items kvs h of (items, h') \<Rightarrow> (PRef (length h'), h' @ [ODict items]))"
| "alloc_list [] h = ([], h)"
| "alloc_list (x # xs) h =
     (case alloc_json x h of (v, h') \<Rightarrow>
        (case alloc_list xs h' of (vs, h'') \<Rightarrow> (v # vs, h'')))"
| "alloc_items [] h = ([], h)"
| "alloc_items (kv # kvs) h =
     (case alloc_json (snd kv) h of (v, h') \<Rightarrow>
        (case alloc_items kvs h' of (items, h'') \<Rightarrow> ((fst kv, v) # items, h'')))"

section \<open>Example trees\<close>

text \<open>Constructors for nodes with the keys of the interchange format; the property
  blocks are arbitrary JSON values.\<close>

definition mk_fp :: "string \<Rightarrow> json \<Rightarrow> json" where
  "mk_fp letter props = JObj [(''pos-eigenschaften'', props), (''@_ftnr'', JStr letter)]"

definition mk_gt :: "string \<Rightarrow> json \<Rightarrow> json list \<Rightarrow> json" where
  "mk_gt nr text fps =
     JObj [(''grundtext'', text), (''folgeposition'', JList fps), (''@_nr'', JStr nr)]"

definition mk_ulg :: "string \<Rightarrow> json \<Rightarrow> json list \<Rightarrow> json" where
  "mk_ulg nr props gts =
     JObj [(''ulg-eigenschaften'', props),
           (''positionen'', JObj [(''grundtextnr'', JList gts)]),
           (''@_nr'', JStr nr)]"

definition mk_lg :: "string \<Rightarrow> json \<Rightarrow> json list \<Rightarrow> json" where
  "mk_lg nr props ulgs =
     JObj [(''lg-eigenschaften'', props),
           (''ulg-liste'', JObj [(''ulg'', JList ulgs)]),
           (''@_nr'', JStr nr)]"






text \<open>Rows of the four kinds.\<close>

definition lg_row :: "string \<Rightarrow> entity_json \<Rightarrow> row" where
  "lg_row lg doc =
     \<lparr> entity_type = ''LG'', row_lg_nr = lg, row_ulg_nr = None, row_grundtext_nr = None,
       row_position_nr = None, row_entity_json = doc \<rparr>"

definition ulg_row :: "string \<Rightarrow> string \<Rightarrow> entity_json \<Rightarrow> row" where
  "ulg_row lg ulg doc =
     \<lparr> entity_type = ''ULG'', row_lg_nr = lg, row_ulg_nr = Some ulg, row_grundtext_nr = None,
       row_position_nr = None, row_entity_json = doc \<rparr>"

definition gt_row :: "string \<Rightarrow> string \<Rightarrow> string \<Rightarrow> entity_json \<Rightarrow> row" where
  "gt_row lg ulg gt doc =
     \<lparr> entity_type = ''Grundtext'', row_lg_nr = lg, row_ulg_nr = Some ulg,
       row_grundtext_nr = Some gt, row_position_nr = None, row_entity_json = doc \<rparr>"

definition fp_row :: "string \<Rightarrow> string \<Rightarrow> string \<Rightarrow> string \<Rightarrow> entity_json \<Rightarrow> row" where
  "fp_row lg ulg gt letter doc =
     \<lparr> entity_type = ''Folgeposition'', row_lg_nr = lg, row_ulg_nr = Some ulg,
       row_grundtext_nr = Some gt, row_position_nr = Some letter, row_entity_json = doc \<rparr>"

text \<open>A table with the LGs \<open>01\<close> and \<open>00\<close>, stored in that order, each with ULG \<open>11\<close>
  and Grundtext \<open>01\<close>, and an LG \<open>02\<close> without children; every stored document is the
  text of an empty object.\<close>

definition two_lg_table :: "row list" where
  "two_lg_table =
     [lg_row ''01'' (Text (Some (JObj []))), ulg_row ''01'' ''11'' (Text (Some (JObj []))),
      gt_row ''01'' ''11'' ''01'' (Text (Some (JObj []))),
      lg_row ''00'' (Text (Some (JObj []))), ulg_row ''00'' ''11'' (Text (Some (JObj []))),
      gt_row ''00'' ''11'' ''01'' (Text (Some (JObj []))),
      lg_row ''02'' (Text (Some (JObj [])))]"

text \<open>What the reconstruction assembles for an LG of that table, and what keeping
  Grundtext \<open>01\<close> of ULG \<open>11\<close> leaves of it (the same).\<close>

definition assembled_lg :: "string \<Rightarrow> json list \<Rightarrow> json" where
  "assembled_lg lg ulgs = JObj [(''@_nr'', JStr lg), (''ulg-liste'', JObj [(''ulg'', JList ulgs)])]"

definition assembled_ulg :: json where
  "assembled_ulg =
     JObj [(''@_nr'', JStr ''11''),
           (''positionen'', JObj [(''grundtextnr'',
              JList [JObj [(''@_nr'', JStr ''01''), (''folgeposition'', JList [])]])])]"

text \<open>The records that the storage returns from that table for the LGs \<open>00\<close>, \<open>01\<close>
  and \<open>02\<close>.\<close>

definition two_lg_lgs :: "row list" where
  "two_lg_lgs = [lg_row ''01'' (Text (Some (JObj []))), lg_row ''00'' (Text (Some (JObj []))),
                 lg_row ''02'' (Text (Some (JObj [])))]"

definition two_lg_ulgs :: "row list" where
  "two_lg_ulgs = [ulg_row ''01'' ''11'' (Text (Some (JObj []))),
                  ulg_row ''00'' ''11'' (Text (Some (JObj [])))]"

definition two_lg_gts :: "row list" where
  "two_lg_gts = [gt_row ''01'' ''11'' ''01'' (Text (Some (JObj []))),
                 gt_row ''00'' ''11'' ''01'' (Text (Some (JObj [])))]"

text \<open>A small LG in a store: ULG \<open>11\<close> with Grundtext \<open>01\<close> and its Folgepositionen
  \<open>A\<close> and \<open>B\<close>.\<close>

definition small_lg :: json where
  "small_lg = mk_lg ''00'' JNull [mk_ulg ''11'' JNull
                [mk_gt ''01'' JNull [mk_fp ''A'' JNull, mk_fp ''B'' JNull]]]"

definition small_store :: store where
  "small_store = snd (alloc_json small_lg [])"

definition small_root :: pval where
  "small_root = fst (alloc_json small_lg [])"

text \<open>A standard output that takes every line.\<close>

definition accepting_stdout :: "string \<Rightarrow> py_error option" where
  "accepting_stdout text = None"

text \<open>The store after a keep call on the small LG, and after a zoom call that follows
  it with the same root.\<close>

definition store_after_keep :: store where
  "store_after_keep =
     snd (h_filter_json_by_full_nr 10 accepting_stdout small_root [''001101A''] small_store)"

definition store_after_zoom :: store where
  "store_after_zoom =
     snd (h_filter_json_entity 10 accepting_stdout small_root ''Folgeposition'' (KStr ''B'') None None
            store_after_keep)"

text \<open>The tree that the zoom call on the small LG returns: the path to Folgeposition
  \<open>B\<close>.\<close>

definition small_lg_B :: json where
  "small_lg_B = mk_lg ''00'' JNull [mk_ulg ''11'' JNull [mk_gt ''01'' JNull [mk_fp ''B'' JNull]]]"







text \<open>
  An LG \<open>00\<close> for the round through the storage, with empty property blocks: the only
  Grundtext \<open>01\<close> of its ULG \<open>11\<close> is an undivided position (it has no key
  \<open>grundtext\<close>).
\<close>

definition undivided_gt :: json where
  "undivided_gt =
     JObj [(''ungeteilteposition'', JObj [(''pos-eigenschaften'', JObj []), (''@_mfv'', JStr ''Z'')]),
           (''@_nr'', JStr ''01'')]"

definition undivided_lg :: json where
  "undivided_lg = mk_lg ''00'' (JObj []) [mk_ulg ''11'' (JObj []) [undivided_gt]]"

text \<open>The table that holds the documents of a payload when every embedding succeeds.\<close>

definition table_of :: "json list \<Rightarrow> row list option" where
  "table_of payload =
     (case process_and_store_data (\<lambda>i. True) payload of
        Inl e \<Rightarrow> None
      | Inr docs \<Rightarrow> insert_documents docs)"

text \<open>The rows of the undivided LG, and what is left of the LG when ULG \<open>11\<close> has no
  Grundtext.\<close>

definition undivided_table :: "row list" where
  "undivided_table =
     [lg_row ''00'' (Text (Some undivided_lg)),
      ulg_row ''00'' ''11'' (Text (Some (mk_ulg ''11'' (JObj []) [undivided_gt]))),
      \<lparr> entity_type = ''UngeteiltePosition'', row_lg_nr = ''00'', row_ulg_nr = Some ''11'',
        row_grundtext_nr = Some ''01'', row_position_nr = Some ''Z'',
        row_entity_json = Text (Some undivided_gt) \<rparr>]"

definition emptied_lg :: json where
  "emptied_lg = mk_lg ''00'' (JObj []) [mk_ulg ''11'' (JObj []) []]"



section \<open>Auxiliary functions of the proofs\<close>

subsection \<open>The key order as a function of the finished items\<close>

text \<open>
  The three loop bodies of \<open>preserve_json_order\<close> on items whose values are already
  processed, the dictionary \<open>arrange\<close> they build, and closed forms of the two folds of a
  recognised dictionary: \<open>sel\<close> lists the predefined keys that are present, \<open>news\<close> the
  first item of every key outside a set.
\<close>

definition put_known :: "(string \<times> json) list \<Rightarrow> string \<Rightarrow> (string \<times> json) list \<Rightarrow> (string \<times> json) list" where
  "put_known obj key od = (case map_of obj key of Some v \<Rightarrow> dict_set od key v | None \<Rightarrow> od)"

definition put_new :: "string \<times> json \<Rightarrow> (string \<times> json) list \<Rightarrow> (string \<times> json) list" where
  "put_new kv od = (if \<not> dict_has od (fst kv) then dict_set od (fst kv) (snd kv) else od)"

definition put_item :: "string \<times> json \<Rightarrow> (string \<times> json) list \<Rightarrow> (string \<times> json) list" where
  "put_item kv od = dict_set od (fst kv) (snd kv)"

definition arrange :: "(string \<times> json) list \<Rightarrow> (string \<times> json) list" where
  "arrange obj =
     (let predefined_order = KEY_ORDER_MAP (get_object_type obj) in
      if predefined_order \<noteq> [] then fold put_new obj (fold (put_known obj) predefined_order [])
      else fold put_item obj [])"

definition map_vals :: "(json \<Rightarrow> json) \<Rightarrow> (string \<times> json) list \<Rightarrow> (string \<times> json) list" where
  "map_vals f obj = map (\<lambda>kv. (fst kv, f (snd kv))) obj"

fun sel :: "(string \<times> json) list \<Rightarrow> string list \<Rightarrow> (string \<times> json) list" where
  "sel obj [] = []"
| "sel obj (k # ks) = (case map_of obj k of Some v \<Rightarrow> (k, v) # sel obj ks | None \<Rightarrow> sel obj ks)"

fun news :: "(string \<times> json) list \<Rightarrow> string set \<Rightarrow> (string \<times> json) list" where
  "news [] S = []"
| "news (kv # xs) S = (if fst kv \<in> S then news xs S else kv # news xs (insert (fst kv) S))"

subsection \<open>What a filter leaves alone\<close>

text \<open>\<open>same_but k x r\<close>: \<open>r\<close> is \<open>x\<close>, or the dictionary \<open>x\<close> with a new value under the
  one key \<open>k\<close>.  \<open>carries_nr nr lg\<close>: \<open>lg\<close> is a dictionary with the string \<open>nr\<close> under
  \<open>@_nr\<close>.\<close>

definition same_but :: "string \<Rightarrow> json \<Rightarrow> json \<Rightarrow> bool" where
  "same_but k x r \<longleftrightarrow> r = x \<or> (\<exists>kvs d. x = JObj kvs \<and> r = JObj (dict_set kvs k d))"

definition carries_nr :: "string \<Rightarrow> json \<Rightarrow> bool" where
  "carries_nr nr lg \<longleftrightarrow> (\<exists>kvs. lg = JObj kvs \<and> map_of kvs ''@_nr'' = Some (JStr nr))"

subsection \<open>New objects\<close>

text \<open>
  With respect to a store \<open>h0\<close> at the start of a call: a value is new when it is no
  reference to an object of \<open>h0\<close>; a later store \<open>h\<close> extends \<open>h0\<close> when the objects of
  \<open>h0\<close> are in it unchanged and every other object holds new values only; a statement is
  safe when it keeps the extension, whether it ends with a value or an exception, and its
  value satisfies \<open>Q\<close>.
\<close>

definition fresh_val :: "nat \<Rightarrow> pval \<Rightarrow> bool" where
  "fresh_val n v = (case v of PRef a \<Rightarrow> n \<le> a | _ \<Rightarrow> True)"

definition vals_of :: "obj \<Rightarrow> pval set" where
  "vals_of ob = (case ob of ODict kvs \<Rightarrow> snd ` set kvs | OList xs \<Rightarrow> set xs)"

definition ext :: "store \<Rightarrow> store \<Rightarrow> bool" where
  "ext h0 h \<longleftrightarrow>
     length h0 \<le> length h \<and> take (length h0) h = h0 \<and>
     (\<forall>a. length h0 \<le> a \<and> a < length h \<longrightarrow> (\<forall>v \<in> vals_of (h ! a). fresh_val (length h0) v))"

definition safe :: "store \<Rightarrow> ('a \<Rightarrow> bool) \<Rightarrow> 'a prog \<Rightarrow> bool" where
  "safe h0 Q m \<longleftrightarrow> (\<forall>h. ext h0 h \<longrightarrow> (case m h of (r, h') \<Rightarrow> ext h0 h' \<and> (\<forall>x. r = Inr x \<longrightarrow> Q x)))"

definition copy_inv :: "store \<Rightarrow> (nat \<rightharpoonup> nat) \<times> store \<Rightarrow> bool" where
  "copy_inv h0 s \<longleftrightarrow> ext h0 (snd s) \<and> (\<forall>a b. fst s a = Some b \<longrightarrow> length h0 \<le> b)"

definition fresh_opt :: "nat \<Rightarrow> pval option \<Rightarrow> bool" where
  "fresh_opt n found = (case found of None \<Rightarrow> True | Some x \<Rightarrow> fresh_val n x)"

definition fresh_dict :: "nat \<Rightarrow> (string \<times> pval) list \<Rightarrow> bool" where
  "fresh_dict n kvs = list_all (fresh_val n) (map snd kvs)"


subsection \<open>What a result shares with the input\<close>

text \<open>
  \<open>reaches h v a\<close>: the object at address \<open>a\<close> is the one \<open>v\<close> refers to, or it is found
  from there through the items and elements of objects of the store \<open>h\<close>.
  \<open>returns_input obj target_entity_type\<close>: a root dictionary with the items \<open>obj\<close> is
  not recognised, or its level does not accept the target type; these are the cases in
  which \<open>filter_json_entity\<close> ends in \<open>return json_input\<close>.  \<open>passthrough_message\<close> is the
  line it prints before.
\<close>

inductive reaches :: "store \<Rightarrow> pval \<Rightarrow> nat \<Rightarrow> bool" where
  reaches_here: "reaches h (PRef a) a"
| reaches_step: "obj_at h a = Some ob \<Longrightarrow> v \<in> vals_of ob \<Longrightarrow> reaches h v b \<Longrightarrow> reaches h (PRef a) b"

definition returns_input :: "(string \<times> 'v) list \<Rightarrow> string \<Rightarrow> bool" where
  "returns_input obj target_entity_type =
     (case detected_level obj of
        None \<Rightarrow> True
      | Some lv \<Rightarrow> target_entity_type \<notin> set (valid_target_types lv))"

definition passthrough_message :: "(string \<times> 'v) list \<Rightarrow> string \<Rightarrow> string" where
  "passthrough_message obj target_entity_type =
     (case detected_level obj of
        None \<Rightarrow> unrecognised_message
      | Some lv \<Rightarrow> invalid_target_type_message lv target_entity_type)"

section \<open>Basic facts about results and dictionaries\<close>


lemma bind_Inr [simp]: "bind (Inr x) f = f x"
  by (simp add: bind_def)

lemma bind_Inl [simp]: "bind (Inl e) f = Inl e"
  by (simp add: bind_def)

lemma bind_eq_Inr: "bind m f = Inr y \<longleftrightarrow> (\<exists>x. m = Inr x \<and> f x = Inr y)"
  by (cases m) simp_all

lemma bind_assoc: "bind (bind m f) g = bind m (\<lambda>x. bind (f x) g)"
  by (cases m) simp_all



lemma dict_has_iff: "dict_has od k \<longleftrightarrow> k \<in> fst ` set od"
  by (simp add: dict_has_def map_of_eq_None_iff)

lemma keys_dict_set: "fst ` set (dict_set od k v) = insert k (fst ` set od)"
  by (induction od) auto

lemma dict_set_new: "k \<notin> fst ` set od \<Longrightarrow> dict_set od k v = od @ [(k, v)]"
  by (induction od) auto

lemma distinct_dict_set: "distinct (map fst od) \<Longrightarrow> distinct (map fst (dict_set od k v))"
  by (induction od) (auto simp: keys_dict_set)

lemma set_dict_set: "set (dict_set od k v) \<subseteq> insert (k, v) (set od)"
  by (induction od) auto

lemma map_of_dict_set: "map_of (dict_set kvs k v) = (map_of kvs)(k \<mapsto> v)"
  by (induction kvs) (auto simp: fun_eq_iff)

lemma dict_set_twice: "dict_set (dict_set kvs k v) k w = dict_set kvs k w"
  by (induction kvs) auto

section \<open>Position numbers: what the two format checks accept\<close>


lemma drop6_cases:
  assumes "length s \<ge> 6"
  obtains "s = take 6 s" "length s = 6" "drop 6 s = []"
  | c where "s = take 6 s @ [c]" "length s = 7" "s ! 6 = c" "drop 6 s = [c]"
  | c d where "s = take 6 s @ [c, d]" "length s = 8" "s ! 6 = c" "drop 6 s = [c, d]"
  | c d e r where "s = take 6 s @ c # d # e # r" "length s \<ge> 9" "drop 6 s = c # d # e # r"
proof -
  have s: "take 6 s @ drop 6 s = s" by simp
  have l: "length (take 6 s) = 6" using assms by simp
  have n: "s ! 6 = c" if "drop 6 s = c # r" for c r
  proof -
    have "s ! 6 = (take 6 s @ c # r) ! length (take 6 s)" using s that l by simp
    then show ?thesis by (simp only: nth_append_length)
  qed
  have len: "length s = 6 + length (drop 6 s)" using assms by simp
  show ?thesis
  proof (cases "drop 6 s")
    case Nil
    then show ?thesis using that(1) assms by simp
  next
    case c: (Cons c r1)
    show ?thesis
    proof (cases r1)
      case Nil
      have "s = take 6 s @ [c]" using s c Nil by simp
      moreover have "length s = 7" using len c Nil by simp
      ultimately show ?thesis using that(2) n [OF c] c Nil by blast
    next
      case d: (Cons d r2)
      show ?thesis
      proof (cases r2)
        case Nil
        have "s = take 6 s @ [c, d]" using s c d Nil by simp
        moreover have "length s = 8" using len c d Nil by simp
        ultimately show ?thesis using that(3) n [OF c] c d Nil by blast
      next
        case (Cons e r3)
        have "s = take 6 s @ c # d # e # r3" using s c d Cons by simp
        moreover have "length s \<ge> 9" using len c d Cons by simp
        ultimately show ?thesis using that(4) c d Cons by blast
      qed
    qed
  qed
qed

lemma not_at_end [simp]: "\<not> at_end (c # d # r)"
  by (simp add: at_end_def)

lemma at_end_single [simp]: "at_end [c] \<longleftrightarrow> c = 10"
  by (simp add: at_end_def)

lemma matches_code_pattern_iff:
  assumes nl: "\<not> L 10"
  shows "matches_code_pattern L s
         \<longleftrightarrow> code_grammar is_decimal L s \<or> (\<exists>t. s = t @ [10] \<and> code_grammar is_decimal L t)"
    (is "?M \<longleftrightarrow> _")
proof -
  define G where "G = code_grammar is_decimal L"
  have G: "G s \<longleftrightarrow> (length s = 6 \<and> list_all is_decimal s) \<or>
                    (length s = 7 \<and> list_all is_decimal (take 6 s) \<and> L (s ! 6))" for s
    by (simp add: G_def code_grammar_def)
  have M: "?M \<longleftrightarrow> (length s \<ge> 6 \<and> list_all is_decimal (take 6 s) \<and>
          (case drop 6 s of c # rest' \<Rightarrow> (L c \<and> at_end rest') \<or> at_end (c # rest')
                          | [] \<Rightarrow> True))"
    by (simp add: matches_code_pattern_def)
  have "?M \<longleftrightarrow> G s \<or> (\<exists>t. s = t @ [10] \<and> G t)"
  proof (cases "length s \<ge> 6 \<and> list_all is_decimal (take 6 s)")
    case False
    have "\<not> G s" using False by (auto simp: G)
    moreover have "\<not> G t" if "s = t @ [10]" for t
      using False that by (auto simp: G)
    moreover have "\<not> ?M" using False by (auto simp: M)
    ultimately show ?thesis by blast
  next
    case True
    then have len: "length s \<ge> 6" and dig: "list_all is_decimal (take 6 s)" by simp_all
    have l6: "length (take 6 s) = 6" using len by simp
    from len show ?thesis
    proof (cases rule: drop6_cases)
      case 1
      then show ?thesis using dig by (auto simp: G M)
    next
      case (2 c)
      have "(\<exists>t. s = t @ [10] \<and> G t) \<longleftrightarrow> c = 10"
      proof
        assume "\<exists>t. s = t @ [10] \<and> G t"
        then obtain t where "s = t @ [10]" by blast
        then have "last s = 10" by simp
        moreover have "last s = c" by (subst 2(1)) simp
        ultimately show "c = 10" by simp
      next
        assume "c = 10"
        then have "s = take 6 s @ [10] \<and> G (take 6 s)"
          using 2 dig len by (auto simp: G)
        then show "\<exists>t. s = t @ [10] \<and> G t" by blast
      qed
      moreover have "G s \<longleftrightarrow> L c"
        using 2 dig by (simp add: G)
      moreover have "?M \<longleftrightarrow> L c \<or> c = 10"
        using len dig 2(4) by (auto simp: M at_end_def)
      ultimately show ?thesis by blast
    next
      case (3 c d)
      have "(\<exists>t. s = t @ [10] \<and> G t) \<longleftrightarrow> L c \<and> d = 10"
      proof
        assume "\<exists>t. s = t @ [10] \<and> G t"
        then obtain t where t: "s = t @ [10]" "G t" by blast
        have "t @ [10] = s" using t(1) by (rule sym)
        also have "s = (take 6 s @ [c]) @ [d]" using 3(1) by simp
        finally have "t @ [10] = (take 6 s @ [c]) @ [d]" .
        then have td: "t = take 6 s @ [c]" "d = 10" by (simp_all only: append1_eq_conv)
        have "t ! 6 = (take 6 s @ [c]) ! length (take 6 s)" using td(1) l6 by simp
        then have "t ! 6 = c" by (simp only: nth_append_length)
        moreover have "length t = 7" using td(1) l6 by simp
        ultimately show "L c \<and> d = 10" using t(2) td(2) by (simp add: G)
      next
        assume a: "L c \<and> d = 10"
        have "(take 6 s @ [c]) ! length (take 6 s) = c" by (simp only: nth_append_length)
        then have "(take 6 s @ [c]) ! 6 = c" using l6 by simp
        then have "G (take 6 s @ [c])"
          using a dig len by (simp add: G)
        moreover have "s = (take 6 s @ [c]) @ [10]" using 3(1) a by simp
        ultimately show "\<exists>t. s = t @ [10] \<and> G t" by blast
      qed
      moreover have "\<not> G s"
        using 3 by (simp add: G)
      moreover have "?M \<longleftrightarrow> L c \<and> d = 10"
        using len dig 3(4) by (auto simp: M)
      ultimately show ?thesis by blast
    next
      case (4 c d e r)
      have "\<not> G s" using 4 by (simp add: G)
      moreover have "\<not> G t" if "s = t @ [10]" for t
      proof -
        have "length t + 1 = length s" using that by simp
        then show ?thesis using 4(2) by (simp add: G)
      qed
      moreover have "\<not> ?M"
        using 4(3) by (auto simp: M)
      ultimately show ?thesis by blast
    qed
  qed
  then show ?thesis by (simp only: G_def)
qed

lemma strip_no_trailing_space: "strip s = [] \<or> \<not> is_whitespace (last (strip s))"
proof -
  define xs where "xs = dropWhile is_whitespace (rev (dropWhile is_whitespace s))"
  have "xs = [] \<or> \<not> is_whitespace (hd xs)"
    unfolding xs_def by (metis hd_dropWhile)
  moreover have "last (rev xs) = hd xs" if "xs \<noteq> []" using that by (simp add: last_rev)
  ultimately show ?thesis unfolding strip_def xs_def [symmetric] by auto
qed

lemma regulation_nr_format_ok_iff:
  "regulation_nr_format_ok s \<longleftrightarrow> s \<noteq> [] \<and> code_grammar is_decimal is_ascii_letter (strip s)"
proof -
  have "\<not> (\<exists>t. strip s = t @ [10] \<and> code_grammar is_decimal is_ascii_letter t)"
  proof
    assume "\<exists>t. strip s = t @ [10] \<and> code_grammar is_decimal is_ascii_letter t"
    then obtain t where t: "strip s = t @ [10]" by blast
    then have "strip s \<noteq> []" "last (strip s) = 10" by simp_all
    then show False using strip_no_trailing_space [of s] by (simp add: is_whitespace_def)
  qed
  moreover have nl: "\<not> is_ascii_letter 10" by (simp add: is_ascii_letter_def)
  ultimately show ?thesis
    unfolding regulation_nr_format_ok_def matches_code_pattern_iff [of is_ascii_letter, OF nl]
    by blast
qed

text \<open>The model of the trees has 8-bit characters.  On their code points the check on
  strings is the check that the reconstruction uses.\<close>

lemma decimal_below_256: "c < 256 \<Longrightarrow> is_decimal c \<longleftrightarrow> 48 \<le> c \<and> c \<le> 57"
  by (auto simp: is_decimal_def decimal_zeros_def)

lemma mem_code_points: "c \<in> set s \<longleftrightarrow> (of_char c :: nat) \<in> of_char ` set s"
  by (simp add: inj_image_mem_iff [OF inj_of_char])

lemma is_digit_code_point: "is_decimal (of_char c) \<longleftrightarrow> is_digit c"
proof -
  have lt: "(of_char c :: nat) < 256" by simp
  have "is_digit c \<longleftrightarrow> 48 \<le> (of_char c :: nat) \<and> (of_char c :: nat) \<le> 57"
    unfolding is_digit_def mem_code_points [of c] by simp presburger
  then show ?thesis using decimal_below_256 [OF lt] by simp
qed

lemma is_upper_code_point: "is_ascii_upper (of_char c) \<longleftrightarrow> is_upper c"
proof -
  have "is_upper c \<longleftrightarrow> 65 \<le> (of_char c :: nat) \<and> (of_char c :: nat) \<le> 90"
    unfolding is_upper_def mem_code_points [of c] by simp presburger
  then show ?thesis by (simp add: is_ascii_upper_def)
qed

lemma newline_code_point: "(of_char c :: nat) = 10 \<longleftrightarrow> c = CHR 0x0A"
proof -
  have "c = CHR 0x0A \<longleftrightarrow> (of_char c :: nat) = of_char (CHR 0x0A)"
    by (simp only: inj_eq [OF inj_of_char])
  then show ?thesis by simp
qed

lemma at_end_code_points: "at_end (map of_char s) \<longleftrightarrow> at_dollar s"
  by (cases s; cases "tl s") (auto simp: at_end_def at_dollar_def newline_code_point)

lemma validate_position_number_code_points:
  "validate_position_number_string (code_points s) = validate_position_number_format (JStr s)"
proof -
  have d: "list_all is_decimal (take 6 (code_points s)) = list_all is_digit (take 6 s)"
    by (simp add: code_points_def take_map list_all_iff is_digit_code_point)
  have dr: "drop 6 (code_points s) = map of_char (drop 6 s)"
    by (simp add: code_points_def drop_map)
  have l: "length (code_points s) = length s" by (simp add: code_points_def)
  show ?thesis
  proof (cases "drop 6 s")
    case Nil
    then show ?thesis
      unfolding validate_position_number_string_def matches_code_pattern_def d dr l
      by (simp add: match_position_nr_def Let_def)
  next
    case (Cons c rest)
    have e1: "at_end (map of_char rest) = at_dollar rest" by (rule at_end_code_points)
    have e2: "at_end (of_char c # map of_char rest) = at_dollar (c # rest)"
      using at_end_code_points [of "c # rest"] by simp
    show ?thesis
      unfolding validate_position_number_string_def matches_code_pattern_def d dr l
      by (auto simp: Cons match_position_nr_def Let_def is_upper_code_point e1 e2)
  qed
qed

lemma position_code_grammar_accepted:
  "position_code_grammar s \<Longrightarrow> validate_position_number_string s"
proof -
  have "is_decimal c" if "is_ascii_digit c" for c
    using that by (simp add: is_ascii_digit_def is_decimal_def decimal_zeros_def)
  then have "list_all is_decimal xs" if "list_all is_ascii_digit xs" for xs
    using that by (simp add: list_all_iff)
  moreover have "\<not> is_ascii_upper 10" by (simp add: is_ascii_upper_def)
  moreover assume "position_code_grammar s"
  ultimately show ?thesis
    unfolding validate_position_number_string_def position_code_grammar_def
    by (auto simp: matches_code_pattern_iff code_grammar_def)
qed

text \<open>
  Claim C6, as amended.  For every string, \<open>validate_position_number_format\<close> succeeds
  exactly when the string, or the string without one line feed at its end, is six decimal
  digits followed by at most one of the letters \<open>A\<close> to \<open>Z\<close>; the digits are those that
  \<open>\d\<close> matches, every Unicode decimal digit.  The format check of
  \<open>find_regulation_by_number\<close> succeeds exactly when the string is not empty and, stripped
  of surrounding white space, is six such digits followed by at most one ASCII letter of
  either case.
\<close>

theorem position_number_validation_amended:
  "(validate_position_number_string s \<longleftrightarrow>
      code_grammar is_decimal is_ascii_upper s \<or>
      (\<exists>t. s = t @ [10] \<and> code_grammar is_decimal is_ascii_upper t)) \<and>
   (regulation_nr_format_ok s \<longleftrightarrow>
      s \<noteq> [] \<and> code_grammar is_decimal is_ascii_letter (strip s))"
proof -
  have "\<not> is_ascii_upper 10" by (simp add: is_ascii_upper_def)
  then show ?thesis
    unfolding validate_position_number_string_def regulation_nr_format_ok_iff
    by (simp only: matches_code_pattern_iff simp_thms)
qed

text \<open>The amended claim at \<open>001103A\<close>, which both checks accept, and at \<open>00110\<close> followed
  by a line feed, which both refuse.\<close>

theorem position_number_validation_amended_witness:
  "validate_position_number_string (code_points ''001103A'') \<and>
   code_grammar is_decimal is_ascii_upper (code_points ''001103A'') \<and>
   regulation_nr_format_ok (code_points ''001103A'') \<and>
   code_grammar is_decimal is_ascii_letter (strip (code_points ''001103A'')) \<and>
   \<not> validate_position_number_string (code_points ''00110'' @ [10]) \<and>
   \<not> code_grammar is_decimal is_ascii_upper (code_points ''00110'' @ [10]) \<and>
   \<not> code_grammar is_decimal is_ascii_upper (code_points ''00110'') \<and>
   \<not> regulation_nr_format_ok (code_points ''00110'' @ [10])"
proof -
  have g1: "code_grammar is_decimal is_ascii_upper (code_points ''001103A'')"
    by (simp add: code_grammar_def code_points_def is_decimal_def decimal_zeros_def
        is_ascii_upper_def)
  have g2: "code_grammar is_decimal is_ascii_letter (strip (code_points ''001103A''))"
    by (simp add: code_grammar_def code_points_def is_decimal_def decimal_zeros_def
        is_ascii_letter_def strip_def is_whitespace_def)
  have g3: "\<not> code_grammar is_decimal is_ascii_upper (code_points ''00110'' @ [10])"
    by (simp add: code_grammar_def code_points_def is_decimal_def decimal_zeros_def)
  have g4: "\<not> code_grammar is_decimal is_ascii_upper (code_points ''00110'')"
    by (simp add: code_grammar_def code_points_def)
  have g5: "\<not> code_grammar is_decimal is_ascii_letter (strip (code_points ''00110'' @ [10]))"
    by (simp add: code_grammar_def code_points_def strip_def is_whitespace_def)
  have n: "code_points ''001103A'' \<noteq> []" "code_points ''00110'' @ [10] \<noteq> []"
    by (simp_all add: code_points_def)
  have "validate_position_number_string (code_points ''001103A'')"
    using position_number_validation_amended [of "code_points ''001103A''"] g1 by simp
  moreover have "regulation_nr_format_ok (code_points ''001103A'')"
    using position_number_validation_amended [of "code_points ''001103A''"] g2 n by simp
  moreover have "\<not> validate_position_number_string (code_points ''00110'' @ [10])"
    using position_number_validation_amended [of "code_points ''00110'' @ [10]"] g3 g4 by simp
  moreover have "\<not> regulation_nr_format_ok (code_points ''00110'' @ [10])"
    using position_number_validation_amended [of "code_points ''00110'' @ [10]"] g5 by simp
  ultimately show ?thesis using g1 g2 g3 g4 by simp
qed

text \<open>
  The claim as stated fails: \<open>find_regulation_by_number\<close> lets the lower-case letter of
  \<open>001101a\<close> through, and \<open>validate_position_number_format\<close> accepts \<open>001101\<close> followed by
  a line feed and also six Arabic-Indic digits (\<open>U+0660\<close> and \<open>U+0661\<close>); none of the
  three strings is in the grammar.
\<close>

theorem position_number_validation_counterexample:
  "regulation_nr_format_ok (code_points ''001101a'') \<and>
   \<not> position_code_grammar (code_points ''001101a'') \<and>
   validate_position_number_string (code_points ''001101'' @ [10]) \<and>
   \<not> position_code_grammar (code_points ''001101'' @ [10]) \<and>
   validate_position_number_string [1632, 1632, 1633, 1633, 1632, 1633] \<and>
   \<not> position_code_grammar [1632, 1632, 1633, 1633, 1632, 1633]"
  by (simp add: regulation_nr_format_ok_def validate_position_number_string_def
      matches_code_pattern_def strip_def is_whitespace_def code_points_def
      position_code_grammar_def code_grammar_def at_end_def is_decimal_def decimal_zeros_def
      is_ascii_digit_def is_ascii_upper_def is_ascii_letter_def)

section \<open>Keep: the example of the specification\<close>

lemmas keep_defs = filter_json_by_full_nr_def emptied_copy_def keep_round_def keep_in_ulg_def
  result_ulg_for_def find_target_gt_def find_target_ulg_def add_position_def
  append_folgeposition_def folgepositionen_def has_nested_def get_nested_def set_nested_def
  deepcopy_def py_get_def match_position_nr_def is_digit_def is_upper_def at_dollar_def
  dict_has_def

lemmas mk_defs = mk_fp_def mk_gt_def mk_ulg_def mk_lg_def


text \<open>
  Claim C1.  On an LG \<open>00\<close> whose only ULG \<open>11\<close> holds Grundtext \<open>01\<close> with the
  Folgepositionen \<open>A\<close>, \<open>B\<close>, \<open>C\<close> and Grundtext \<open>03\<close> with \<open>A\<close>, \<open>B\<close>, keeping the codes
  \<open>001101\<close> and \<open>001103A\<close> returns the LG with ULG \<open>11\<close>, under it Grundtext \<open>01\<close> with
  all three Folgepositionen and Grundtext \<open>03\<close> with \<open>A\<close> alone, and nothing else.  This
  holds for every content of the property blocks and for both orders of the two codes; the
  Grundtexte come in the order of the codes.
\<close>

theorem keep_example:
  "filter_json_by_full_nr
     (mk_lg ''00'' lp [mk_ulg ''11'' up
        [mk_gt ''01'' t1 [mk_fp ''A'' a1, mk_fp ''B'' b1, mk_fp ''C'' c1],
         mk_gt ''03'' t3 [mk_fp ''A'' a3, mk_fp ''B'' b3]]])
     [''001101'', ''001103A'']
   = Inr (mk_lg ''00'' lp [mk_ulg ''11'' up
        [mk_gt ''01'' t1 [mk_fp ''A'' a1, mk_fp ''B'' b1, mk_fp ''C'' c1],
         mk_gt ''03'' t3 [mk_fp ''A'' a3]]]) \<and>
   filter_json_by_full_nr
     (mk_lg ''00'' lp [mk_ulg ''11'' up
        [mk_gt ''01'' t1 [mk_fp ''A'' a1, mk_fp ''B'' b1, mk_fp ''C'' c1],
         mk_gt ''03'' t3 [mk_fp ''A'' a3, mk_fp ''B'' b3]]])
     [''001103A'', ''001101'']
   = Inr (mk_lg ''00'' lp [mk_ulg ''11'' up
        [mk_gt ''03'' t3 [mk_fp ''A'' a3],
         mk_gt ''01'' t1 [mk_fp ''A'' a1, mk_fp ''B'' b1, mk_fp ''C'' c1]]])"
  by (simp add: keep_defs mk_defs)

text \<open>
  Claim C8 at its failing input.  The code \<open>001102\<close> names ULG \<open>11\<close>, which the tree
  has, and Grundtext \<open>02\<close>, which it has not: the result keeps ULG \<open>11\<close> with an empty
  list of Grundtexte.
\<close>

theorem keep_missing_grundtext_leaves_empty_ulg:
  "filter_json_by_full_nr
     (mk_lg ''00'' lp [mk_ulg ''11'' up [mk_gt ''01'' t1 [mk_fp ''A'' a1]]])
     [''001102'']
   = Inr (mk_lg ''00'' lp [mk_ulg ''11'' up []])"
  by (simp add: keep_defs mk_defs)

section \<open>Keep: a code for a Grundtext that the result already holds\<close>









section \<open>Reconstruction: the shape of the result\<close>


lemma same_but_refl: "same_but k x x"
  by (simp add: same_but_def)

lemma same_but_trans: "same_but k x y \<Longrightarrow> same_but k y z \<Longrightarrow> same_but k x z"
  by (auto simp: same_but_def dict_set_twice)

lemma same_but_get: "same_but k x r \<Longrightarrow> k' \<noteq> k \<Longrightarrow> py_get r k' = py_get x k'"
  by (auto simp: same_but_def py_get_def map_of_dict_set)

lemma same_but_obj: "same_but k (JObj kvs) r \<Longrightarrow> \<exists>kvs'. r = JObj kvs'"
  by (auto simp: same_but_def)

lemma py_setitem_same_but: "py_setitem x k v = Inr r \<Longrightarrow> same_but k x r"
  by (cases x) (auto simp: same_but_def)

lemma set_nested_same_but: "set_nested x k1 k2 v = Inr r \<Longrightarrow> same_but k1 x r"
  by (auto simp: set_nested_def bind_eq_Inr intro: py_setitem_same_but)

lemma emptied_copy_same_but: "emptied_copy x = Inr r \<Longrightarrow> same_but ''ulg-liste'' x r"
  by (auto simp: emptied_copy_def deepcopy_def bind_eq_Inr same_but_refl
           dest: set_nested_same_but split: if_splits)

lemma filter_json_by_full_nr_same_but:
  assumes "filter_json_by_full_nr x codes = Inr r"
  shows "same_but ''ulg-liste'' x r"
proof (cases "codes = []")
  case True
  then show ?thesis using assms by (simp add: filter_json_by_full_nr_def emptied_copy_same_but)
next
  case False
  with assms obtain e and st :: "(string \<times> json) list" where e: "emptied_copy x = Inr e"
    and r: "(if st = [] then Inr e else set_nested e ''ulg-liste'' ''ulg'' (JList (map snd st))) = Inr r"
    by (auto simp: filter_json_by_full_nr_def bind_eq_Inr)
  have "same_but ''ulg-liste'' e r"
    using r by (auto simp: same_but_refl dest: set_nested_same_but split: if_splits)
  then show ?thesis using emptied_copy_same_but [OF e] same_but_trans by blast
qed


text \<open>Assembly: every assembled LG is a dictionary that carries its number.\<close>

lemma carries_nr_same_but:
  "carries_nr nr x \<Longrightarrow> same_but k x r \<Longrightarrow> k \<noteq> ''@_nr'' \<Longrightarrow> carries_nr nr r"
  by (auto simp: carries_nr_def same_but_def map_of_dict_set)

lemma carries_nr_setitem: "py_setitem x ''@_nr'' (JStr nr) = Inr r \<Longrightarrow> carries_nr nr r"
  by (cases x) (auto simp: carries_nr_def map_of_dict_set)

lemma ensure_dict_same_but: "ensure_dict x k = Inr r \<Longrightarrow> same_but k x r"
  by (auto simp: ensure_dict_def bind_eq_Inr same_but_refl dest: py_setitem_same_but split: if_splits)

lemma lg_data_of_carries_nr:
  assumes "lg_data_of ulgs lg_records acc = Inr lg_data"
      and "\<forall>item \<in> set acc. carries_nr (fst item) (snd item)"
  shows "\<forall>item \<in> set lg_data. carries_nr (fst item) (snd item)"
  using assms
proof (induction lg_records arbitrary: acc)
  case Nil
  then show ?case by simp
next
  case (Cons lg lg_records)
  from Cons.prems(1) obtain decoded where d: "loads_or_empty (row_entity_json lg) = Inr decoded"
    by (auto simp: bind_eq_Inr)
  show ?case
  proof (cases decoded)
    case None
    then show ?thesis using Cons d by simp
  next
    case (Some lg_json)
    with Cons.prems(1) d obtain j1 j2 j3 where
      j1: "py_setitem lg_json ''@_nr'' (JStr (row_lg_nr lg)) = Inr j1" and
      j2: "ensure_dict j1 ''ulg-liste'' = Inr j2" and
      j3: "set_nested j2 ''ulg-liste'' ''ulg'' (JList (group_get ulgs (row_lg_nr lg))) = Inr j3" and
      rest: "lg_data_of ulgs lg_records (dict_set acc (row_lg_nr lg) j3) = Inr lg_data"
      by (auto simp: bind_eq_Inr)
    have "carries_nr (row_lg_nr lg) j3"
      using carries_nr_setitem [OF j1] ensure_dict_same_but [OF j2] set_nested_same_but [OF j3]
      by (auto intro: carries_nr_same_but)
    moreover have "set (dict_set acc (row_lg_nr lg) j3) \<subseteq> insert (row_lg_nr lg, j3) (set acc)"
      by (rule set_dict_set)
    ultimately have "\<forall>item \<in> set (dict_set acc (row_lg_nr lg) j3). carries_nr (fst item) (snd item)"
      using Cons.prems(2) by auto
    then show ?thesis using Cons.IH [OF rest] by simp
  qed
qed

lemma reconstruct_carries_nr:
  assumes "reconstruct lg_records ulg_records gt_records fp_records = Inr lg_data"
  shows "\<forall>item \<in> set lg_data. carries_nr (fst item) (snd item)"
proof -
  from assms obtain ulgs where "lg_data_of ulgs lg_records [] = Inr lg_data"
    by (auto simp: reconstruct_def bind_eq_Inr)
  then show ?thesis using lg_data_of_carries_nr by force
qed

lemma filter_carries_nr:
  assumes "carries_nr nr lg" and "filter_json_by_full_nr lg codes = Inr r"
  shows "carries_nr nr r"
  using carries_nr_same_but [OF assms(1) filter_json_by_full_nr_same_but [OF assms(2)]] by simp

lemma carries_nr_of: "carries_nr nr lg \<Longrightarrow> nr_of lg = nr"
  by (auto simp: carries_nr_def nr_of_def py_get_def)

text \<open>The loop over the items.\<close>

lemma filtered_lgs_of_set:
  assumes "filtered_lgs_of items position_numbers = Inr fl"
  shows "x \<in> set fl \<longleftrightarrow>
           (\<exists>item \<in> set items. lg_specific position_numbers (fst item) \<noteq> [] \<and>
              filter_json_by_full_nr (snd item) (lg_specific position_numbers (fst item)) = Inr x \<and>
              has_ulgs x = Inr True)"
  using assms
proof (induction items arbitrary: fl)
  case Nil
  then show ?case by simp
next
  case (Cons item items)
  obtain lg_nr lg_json where item: "item = (lg_nr, lg_json)" by (cases item)
  show ?case
  proof (cases "lg_specific position_numbers lg_nr = []")
    case True
    then have "filtered_lgs_of items position_numbers = Inr fl"
      using Cons.prems by (simp add: item lg_specific_def)
    then show ?thesis using Cons.IH True by (simp add: item)
  next
    case False
    with Cons.prems obtain f keep rest where
      f: "filter_json_by_full_nr lg_json (lg_specific position_numbers lg_nr) = Inr f" and
      k: "has_ulgs f = Inr keep" and
      r: "filtered_lgs_of items position_numbers = Inr rest" and
      fl: "fl = (if keep then f # rest else rest)"
      by (auto simp: item lg_specific_def bind_eq_Inr)
    show ?thesis
      using Cons.IH [OF r] f k False by (auto simp: fl item)
  qed
qed

text \<open>The sort.\<close>

lemma sort_keys_carried:
  assumes "\<forall>lg \<in> set lgs. carries_nr (nr_of lg) lg"
  shows "sort_keys lgs = Inr (map (\<lambda>lg. JStr (nr_of lg)) lgs)"
  using assms by (induction lgs) (auto simp: carries_nr_def)

lemma string_keys_strings: "string_keys (map (\<lambda>lg. JStr (f lg)) lgs) = Inr (map f lgs)"
  by (induction lgs) auto

lemma map_snd_zip_map: "map snd (zip (map f xs) xs) = xs"
  by (induction xs) auto

lemma sort_by_nr_carried:
  assumes "\<forall>lg \<in> set lgs. carries_nr (nr_of lg) lg"
  shows "\<exists>out. sort_by_nr lgs = Inr out \<and> set out = set lgs \<and> length out = length lgs \<and>
           sorted (map nr_of out)"
proof (cases "length lgs < 2")
  case True
  then have "sorted (map nr_of lgs)"
    by (cases lgs) (auto simp: less_Suc_eq_le intro: sorted01)
  then show ?thesis using True by (simp add: sort_by_nr_def sort_keys_carried [OF assms])
next
  case False
  define zs where "zs = sort_key fst (zip (map nr_of lgs) lgs)"
  have z: "\<forall>p \<in> set zs. fst p = nr_of (snd p)"
    by (auto simp: zs_def in_set_zip)
  then have e: "map nr_of (map snd zs) = map fst zs"
    by (induction zs) auto
  have "sorted (map fst zs)" by (simp add: zs_def)
  then have s: "sorted (map nr_of (map snd zs))" by (simp only: e)
  have "set (map snd zs) = snd ` set (zip (map nr_of lgs) lgs)"
    by (simp add: zs_def)
  also have "\<dots> = set (map snd (zip (map nr_of lgs) lgs))" by (simp only: set_map)
  finally have "set (map snd zs) = set lgs" by (simp only: map_snd_zip_map)
  moreover have "length (map snd zs) = length lgs" by (simp add: zs_def)
  moreover note s
  moreover have "sort_by_nr lgs = Inr (map snd zs)"
    using False
    by (simp add: sort_by_nr_def sort_keys_carried [OF assms] string_keys_strings zs_def)
  ultimately show ?thesis by blast
qed


lemmas row_defs = lg_row_def ulg_row_def gt_row_def fp_row_def two_lg_table_def
  two_lg_lgs_def two_lg_ulgs_def two_lg_gts_def
  table_fetch_def query_def ordered_by_def

lemmas reconstruct_defs = fetch_and_filter_lg_by_position_numbers_v2_def requested_lg_nrs_def
  reconstruct_def filter_reconstructed_def sort_by_nr_def has_ulgs_def starts_with_def
  ensure_dict_def group_get_def get_position_info_def List.map_filter_def lg_specific_def

lemmas nested_defs = has_nested_def get_nested_def set_nested_def py_get_def dict_has_def deepcopy_def

lemma filter_reconstructed_shape:
  assumes assembled: "reconstruct lg_records ulg_records gt_records fp_records = Inr lg_data"
      and step4: "filter_reconstructed lg_data position_numbers = Inr r"
  shows "(lg_data = [] \<longrightarrow> r = JObj []) \<and>
         (\<forall>item. lg_data = [item] \<longrightarrow>
            (\<exists>obj. r = JObj obj) \<and>
            filter_json_by_full_nr (snd item) position_numbers = Inr r) \<and>
         (length lg_data \<ge> 2 \<longrightarrow>
            (\<exists>out. r = JList out \<and> sorted (map nr_of out) \<and>
               (\<forall>x. x \<in> set out \<longleftrightarrow>
                  (\<exists>item \<in> set lg_data.
                     lg_specific position_numbers (fst item) \<noteq> [] \<and>
                     filter_json_by_full_nr (snd item) (lg_specific position_numbers (fst item))
                       = Inr x \<and>
                     has_ulgs x = Inr True \<and> nr_of x = fst item))))"
proof -
  have carried: "\<forall>item \<in> set lg_data. carries_nr (fst item) (snd item)"
    by (rule reconstruct_carries_nr [OF assembled])
  have none: "r = JObj []" if "lg_data = []"
    using step4 that by (simp add: filter_reconstructed_def)
  have one: "(\<exists>obj. r = JObj obj) \<and> filter_json_by_full_nr (snd item) position_numbers = Inr r"
    if "lg_data = [item]" for item
  proof -
    have f: "filter_json_by_full_nr (snd item) position_numbers = Inr r"
      using step4 that by (simp add: filter_reconstructed_def)
    have "carries_nr (fst item) (snd item)" using carried that by simp
    then have "carries_nr (fst item) r" using f by (rule filter_carries_nr)
    then show ?thesis using f by (auto simp: carries_nr_def)
  qed
  have many: "\<exists>out. r = JList out \<and> sorted (map nr_of out) \<and>
               (\<forall>x. x \<in> set out \<longleftrightarrow>
                  (\<exists>item \<in> set lg_data.
                     lg_specific position_numbers (fst item) \<noteq> [] \<and>
                     filter_json_by_full_nr (snd item) (lg_specific position_numbers (fst item))
                       = Inr x \<and>
                     has_ulgs x = Inr True \<and> nr_of x = fst item))"
    if "length lg_data \<ge> 2"
  proof -
    from that obtain a b rest where "lg_data = a # b # rest"
      by (cases lg_data; cases "tl lg_data") auto
    with step4 obtain fl out where
      fl: "filtered_lgs_of lg_data position_numbers = Inr fl" and
      out: "sort_by_nr fl = Inr out" and r: "r = JList out"
      by (auto simp: filter_reconstructed_def bind_eq_Inr)
    have mem: "x \<in> set fl \<longleftrightarrow>
           (\<exists>item \<in> set lg_data. lg_specific position_numbers (fst item) \<noteq> [] \<and>
              filter_json_by_full_nr (snd item) (lg_specific position_numbers (fst item)) = Inr x \<and>
              has_ulgs x = Inr True)" for x
      by (rule filtered_lgs_of_set [OF fl])
    have nr: "carries_nr (fst item) x"
      if "item \<in> set lg_data"
         "filter_json_by_full_nr (snd item) (lg_specific position_numbers (fst item)) = Inr x"
      for item x
      using carried that filter_carries_nr by blast
    have "\<forall>x \<in> set fl. carries_nr (nr_of x) x"
      using mem nr carries_nr_of by metis
    then obtain out' where o: "sort_by_nr fl = Inr out'" "set out' = set fl" "sorted (map nr_of out')"
      using sort_by_nr_carried by blast
    with out have "set out = set fl" "sorted (map nr_of out)" by simp_all
    moreover have "x \<in> set fl \<longleftrightarrow>
           (\<exists>item \<in> set lg_data. lg_specific position_numbers (fst item) \<noteq> [] \<and>
              filter_json_by_full_nr (snd item) (lg_specific position_numbers (fst item)) = Inr x \<and>
              has_ulgs x = Inr True \<and> nr_of x = fst item)" for x
      using mem [of x] nr carries_nr_of by blast
    ultimately show ?thesis using r by simp
  qed
  show ?thesis using none one many by blast
qed

text \<open>
  Claim C3, as amended.  The operation returns the empty dictionary when the code list is
  empty, the credentials are missing, no code has the format of a position number, or the
  fetch fails.  Otherwise let it return \<open>r\<close>; then the reconstruction has assembled a
  dictionary \<open>lg_data\<close> (one entry per LG number among the LG records).  With no
  assembled LG, \<open>r\<close> is the empty dictionary.  With exactly one, \<open>r\<close> is a single
  dictionary, the result of keeping all the position numbers in that LG, whether its ULG
  list is empty or not: nothing is discarded.  With two or more, \<open>r\<close> is a sequence sorted
  in ascending order of the LG number, and its members are exactly the results of
  keeping, in an assembled LG, the position numbers that start with its number, for the
  LGs that have such a position number and whose result has a ULG list that is not empty:
  every other LG is discarded.
\<close>

theorem reconstruct_result_shape:
  "(position_numbers = [] \<or> \<not> credentials \<or> requested_lg_nrs position_numbers = {} \<or>
    fetch (requested_lg_nrs position_numbers) = None \<longrightarrow>
      fetch_and_filter_lg_by_position_numbers_v2 credentials fetch position_numbers
        = Inr (JObj [])) \<and>
   (\<forall>lg_records ulg_records gt_records fp_records r.
      position_numbers \<noteq> [] \<and> credentials \<and> requested_lg_nrs position_numbers \<noteq> {} \<and>
      fetch (requested_lg_nrs position_numbers)
        = Some (lg_records, ulg_records, gt_records, fp_records) \<and>
      fetch_and_filter_lg_by_position_numbers_v2 credentials fetch position_numbers = Inr r \<longrightarrow>
      (\<exists>lg_data.
         reconstruct lg_records ulg_records gt_records fp_records = Inr lg_data \<and>
         (lg_data = [] \<longrightarrow> r = JObj []) \<and>
         (\<forall>item. lg_data = [item] \<longrightarrow>
            (\<exists>obj. r = JObj obj) \<and>
            filter_json_by_full_nr (snd item) position_numbers = Inr r) \<and>
         (length lg_data \<ge> 2 \<longrightarrow>
            (\<exists>out. r = JList out \<and> sorted (map nr_of out) \<and>
               (\<forall>x. x \<in> set out \<longleftrightarrow>
                  (\<exists>item \<in> set lg_data.
                     lg_specific position_numbers (fst item) \<noteq> [] \<and>
                     filter_json_by_full_nr (snd item) (lg_specific position_numbers (fst item))
                       = Inr x \<and>
                     has_ulgs x = Inr True \<and> nr_of x = fst item))))))"
proof (intro conjI allI impI)
  assume "position_numbers = [] \<or> \<not> credentials \<or> requested_lg_nrs position_numbers = {} \<or>
          fetch (requested_lg_nrs position_numbers) = None"
  then show "fetch_and_filter_lg_by_position_numbers_v2 credentials fetch position_numbers
               = Inr (JObj [])"
    by (auto simp: fetch_and_filter_lg_by_position_numbers_v2_def Let_def)
next
  fix lg_records ulg_records gt_records fp_records r
  assume a: "position_numbers \<noteq> [] \<and> credentials \<and> requested_lg_nrs position_numbers \<noteq> {} \<and>
      fetch (requested_lg_nrs position_numbers)
        = Some (lg_records, ulg_records, gt_records, fp_records) \<and>
      fetch_and_filter_lg_by_position_numbers_v2 credentials fetch position_numbers = Inr r"
  then have env: "position_numbers \<noteq> []" "credentials"
      "requested_lg_nrs position_numbers \<noteq> {}"
    and fetched: "fetch (requested_lg_nrs position_numbers)
                    = Some (lg_records, ulg_records, gt_records, fp_records)"
    and returned: "fetch_and_filter_lg_by_position_numbers_v2 credentials fetch position_numbers
                     = Inr r"
    by blast+
  have "bind (reconstruct lg_records ulg_records gt_records fp_records)
          (\<lambda>lg_data. filter_reconstructed lg_data position_numbers) = Inr r"
    using returned env fetched
    by (simp add: fetch_and_filter_lg_by_position_numbers_v2_def)
  then obtain lg_data where
    assembled: "reconstruct lg_records ulg_records gt_records fp_records = Inr lg_data" and
    step4: "filter_reconstructed lg_data position_numbers = Inr r"
    by (auto simp: bind_eq_Inr)
  show "\<exists>lg_data.
         reconstruct lg_records ulg_records gt_records fp_records = Inr lg_data \<and>
         (lg_data = [] \<longrightarrow> r = JObj []) \<and>
         (\<forall>item. lg_data = [item] \<longrightarrow>
            (\<exists>obj. r = JObj obj) \<and>
            filter_json_by_full_nr (snd item) position_numbers = Inr r) \<and>
         (length lg_data \<ge> 2 \<longrightarrow>
            (\<exists>out. r = JList out \<and> sorted (map nr_of out) \<and>
               (\<forall>x. x \<in> set out \<longleftrightarrow>
                  (\<exists>item \<in> set lg_data.
                     lg_specific position_numbers (fst item) \<noteq> [] \<and>
                     filter_json_by_full_nr (snd item) (lg_specific position_numbers (fst item))
                       = Inr x \<and>
                     has_ulgs x = Inr True \<and> nr_of x = fst item))))"
    using assembled filter_reconstructed_shape [OF assembled step4] by blast
qed


text \<open>
  The amended claim on a table with the LGs \<open>01\<close>, \<open>00\<close> and \<open>02\<close>: the result lists
  \<open>00\<close> before \<open>01\<close>, and \<open>02\<close>, which has no ULG, is discarded.  Without credentials
  the result is the empty dictionary.
\<close>

theorem reconstruct_result_shape_witness:
  "[''011101'', ''001101'', ''021101''] \<noteq> [] \<and>
   requested_lg_nrs [''011101'', ''001101'', ''021101''] \<noteq> {} \<and>
   table_fetch two_lg_table (requested_lg_nrs [''011101'', ''001101'', ''021101''])
     = Some (two_lg_lgs, two_lg_ulgs, two_lg_gts, []) \<and>
   reconstruct two_lg_lgs two_lg_ulgs two_lg_gts []
     = Inr [(''01'', assembled_lg ''01'' [assembled_ulg]),
            (''00'', assembled_lg ''00'' [assembled_ulg]),
            (''02'', assembled_lg ''02'' [])] \<and>
   fetch_and_filter_lg_by_position_numbers_v2 True (table_fetch two_lg_table)
       [''011101'', ''001101'', ''021101'']
     = Inr (JList [assembled_lg ''00'' [assembled_ulg], assembled_lg ''01'' [assembled_ulg]]) \<and>
   sorted (map nr_of [assembled_lg ''00'' [assembled_ulg], assembled_lg ''01'' [assembled_ulg]]) \<and>
   has_ulgs (assembled_lg ''02'' []) = Inr False \<and>
   fetch_and_filter_lg_by_position_numbers_v2 False (table_fetch two_lg_table)
       [''011101'', ''001101'', ''021101'']
     = Inr (JObj [])"
proof -
  let ?pn = "[''011101'', ''001101'', ''021101'']"
  let ?data = "[(''01'', assembled_lg ''01'' [assembled_ulg]),
                (''00'', assembled_lg ''00'' [assembled_ulg]),
                (''02'', assembled_lg ''02'' [])]"
  let ?out = "[assembled_lg ''00'' [assembled_ulg], assembled_lg ''01'' [assembled_ulg]]"
  have q: "requested_lg_nrs ?pn = {''00'', ''01'', ''02''}"
    by (auto simp add: reconstruct_defs keep_defs)
  have e1: "?pn \<noteq> []" by simp
  have e3: "requested_lg_nrs ?pn \<noteq> {}" by (simp add: q)
  have f: "table_fetch two_lg_table (requested_lg_nrs ?pn)
             = Some (two_lg_lgs, two_lg_ulgs, two_lg_gts, [])"
    unfolding q by (simp add: row_defs)
  have a: "reconstruct two_lg_lgs two_lg_ulgs two_lg_gts [] = Inr ?data"
    by (simp add: row_defs reconstruct_defs nested_defs assembled_lg_def assembled_ulg_def)
  have r: "fetch_and_filter_lg_by_position_numbers_v2 True (table_fetch two_lg_table) ?pn
             = Inr (JList ?out)"
    unfolding fetch_and_filter_lg_by_position_numbers_v2_def Let_def f
    by (simp add: q a filter_reconstructed_def sort_by_nr_def has_ulgs_def starts_with_def
        keep_defs assembled_lg_def assembled_ulg_def)
  have h: "has_ulgs (assembled_lg ''02'' []) = Inr False"
    by (simp add: has_ulgs_def nested_defs assembled_lg_def)
  have l: "length ?data \<ge> 2" by simp
  from reconstruct_result_shape [of ?pn True "table_fetch two_lg_table"] e1 e3 f r
  have "\<exists>lg_data. reconstruct two_lg_lgs two_lg_ulgs two_lg_gts [] = Inr lg_data \<and>
          (length lg_data \<ge> 2 \<longrightarrow> (\<exists>out. JList ?out = JList out \<and> sorted (map nr_of out)))"
    by blast
  then have "\<exists>out. JList ?out = JList out \<and> sorted (map nr_of out)"
    using a l by auto
  then have s: "sorted (map nr_of ?out)" by simp
  have n: "fetch_and_filter_lg_by_position_numbers_v2 False (table_fetch two_lg_table) ?pn
             = Inr (JObj [])"
    using reconstruct_result_shape [of ?pn False "table_fetch two_lg_table"] by simp
  show ?thesis using e1 e3 f a r h s n by simp
qed

text \<open>
  The claim as stated fails.  With a single assembled LG whose filtered ULG list is empty
  the operation returns that LG, and with no assembled LG it returns the empty dictionary,
  which is no sequence.
\<close>

theorem reconstruct_result_shape_counterexample:
  "fetch_and_filter_lg_by_position_numbers_v2 True (table_fetch [lg_row ''00'' (Text (Some (JObj [])))])
       [''001101'']
     = Inr (assembled_lg ''00'' []) \<and>
   fetch_and_filter_lg_by_position_numbers_v2 True (table_fetch []) [''001101''] = Inr (JObj [])"
proof -
  have q: "requested_lg_nrs [''001101''] = {''00''}"
    by (auto simp add: reconstruct_defs keep_defs)
  show ?thesis
    unfolding fetch_and_filter_lg_by_position_numbers_v2_def Let_def q
    by (simp add: row_defs reconstruct_defs nested_defs keep_defs assembled_lg_def)
qed

section \<open>The filters do not change the objects of their input\<close>


lemma ext_refl: "ext h h"
  by (auto simp: ext_def)

lemma fresh_scalar [simp]:
  "fresh_val n PNull" "fresh_val n (PBool b)" "fresh_val n (PInt i)" "fresh_val n (PStr s)"
  by (simp_all add: fresh_val_def)

lemma fresh_ref [simp]: "fresh_val n (PRef a) \<longleftrightarrow> n \<le> a"
  by (simp add: fresh_val_def)

lemma safeI:
  assumes "\<And>h r h'. ext h0 h \<Longrightarrow> m h = (r, h') \<Longrightarrow> ext h0 h' \<and> (\<forall>x. r = Inr x \<longrightarrow> Q x)"
  shows "safe h0 Q m"
  using assms by (auto simp: safe_def)

lemma safeD:
  assumes "safe h0 Q m" "ext h0 h" "m h = (r, h')"
  shows "ext h0 h'" "r = Inr x \<Longrightarrow> Q x"
  using assms by (auto simp: safe_def)

lemma safe_ret: "Q x \<Longrightarrow> safe h0 Q (ret x)"
  by (simp add: safe_def ret_def)

lemma safe_raise: "safe h0 Q (raise e)"
  by (simp add: safe_def raise_def)

lemma safe_seq:
  assumes "safe h0 P m" and "\<And>x. P x \<Longrightarrow> safe h0 Q (f x)"
  shows "safe h0 Q (seq m f)"
proof (rule safeI)
  fix h r h' assume e: "ext h0 h" and s: "seq m f h = (r, h')"
  obtain r1 h1 where m: "m h = (r1, h1)" by (cases "m h")
  have e1: "ext h0 h1" using safeD(1) [OF assms(1) e m] .
  show "ext h0 h' \<and> (\<forall>x. r = Inr x \<longrightarrow> Q x)"
  proof (cases r1)
    case (Inl err)
    then show ?thesis using s m e1 by (auto simp: seq_def)
  next
    case (Inr x)
    then have "P x" using safeD(2) [OF assms(1) e m] by simp
    moreover have "f x h1 = (r, h')" using s m Inr by (simp add: seq_def)
    ultimately show ?thesis using safeD [OF assms(2) e1] by blast
  qed
qed

lemma safe_weaken: "safe h0 P m \<Longrightarrow> (\<And>x. P x \<Longrightarrow> Q x) \<Longrightarrow> safe h0 Q m"
  by (fastforce simp: safe_def)

lemma safe_any: "safe h0 P m \<Longrightarrow> safe h0 (\<lambda>x. True) m"
  by (rule safe_weaken) simp_all

text \<open>Statements that only read.\<close>

lemma safe_read:
  assumes "\<And>h. ext h0 h \<Longrightarrow> \<forall>x. f h = Inr x \<longrightarrow> Q x"
  shows "safe h0 Q (\<lambda>h. (f h, h))"
  using assms by (auto simp: safe_def)

lemma safe_contains: "safe h0 (\<lambda>b. True) (h_contains k x)"
  unfolding h_contains_def by (rule safe_read) simp

lemma safe_truthy: "safe h0 (\<lambda>b. True) (h_truthy x)"
  unfolding h_truthy_def by (rule safe_read) simp

lemma safe_str: "safe h0 (\<lambda>b. True) (h_str depth x)"
  unfolding h_str_def by (rule safe_read) simp

lemma safe_print: "safe h0 (\<lambda>u. True) (h_print stdout text)"
  by (rule safeI) (auto simp: h_print_def split: option.splits)

lemma safe_has_append: "safe h0 (\<lambda>b. True) (h_has_append x)"
  unfolding h_has_append_def by (rule safe_read) simp

lemma ext_fresh_obj:
  assumes "ext h0 h" "fresh_val (length h0) (PRef a)" "obj_at h a = Some ob" "v \<in> vals_of ob"
  shows "fresh_val (length h0) v"
  using assms by (auto simp: ext_def obj_at_def split: if_splits)

lemma safe_get_default_any: "safe h0 (\<lambda>v. True) (h_get_default x k d)"
  unfolding h_get_default_def by (rule safe_read) simp

lemma safe_get_any: "safe h0 (\<lambda>v. True) (h_get x k)"
  unfolding h_get_def by (rule safe_get_default_any)

lemma safe_getitem_any: "safe h0 (\<lambda>v. True) (h_getitem x k)"
  unfolding h_getitem_def by (rule safe_read) simp

lemma safe_iter_any: "safe h0 (\<lambda>v. True) (h_iter x)"
  unfolding h_iter_def by (rule safe_read) simp

lemma safe_get_default:
  assumes "fresh_val (length h0) x" "fresh_val (length h0) d"
  shows "safe h0 (fresh_val (length h0)) (h_get_default x k d)"
  unfolding h_get_default_def
proof (rule safe_read, intro allI impI)
  fix h y
  assume e: "ext h0 h"
    and r: "(case x of PRef a \<Rightarrow>
                (case obj_at h a of
                   Some (ODict kvs) \<Rightarrow> Inr (case map_of kvs k of None \<Rightarrow> d | Some v \<Rightarrow> v)
                 | _ \<Rightarrow> Inl AttributeError)
             | _ \<Rightarrow> Inl AttributeError) = Inr y"
  then obtain a kvs where x: "x = PRef a" "obj_at h a = Some (ODict kvs)"
    and y: "y = (case map_of kvs k of None \<Rightarrow> d | Some v \<Rightarrow> v)"
    by (auto split: pval.splits option.splits obj.splits)
  show "fresh_val (length h0) y"
  proof (cases "map_of kvs k")
    case None
    then show ?thesis using y assms(2) by simp
  next
    case (Some v)
    then have "v \<in> vals_of (ODict kvs)" by (force simp: vals_of_def dest: map_of_SomeD)
    then show ?thesis using ext_fresh_obj [OF e _ x(2)] assms(1) x(1) y Some by simp
  qed
qed

lemma safe_getitem:
  assumes "fresh_val (length h0) x"
  shows "safe h0 (fresh_val (length h0)) (h_getitem x k)"
  unfolding h_getitem_def
proof (rule safe_read, intro allI impI)
  fix h y
  assume e: "ext h0 h"
    and r: "(case x of PRef a \<Rightarrow>
                (case obj_at h a of
                   Some (ODict kvs) \<Rightarrow> (case map_of kvs k of None \<Rightarrow> Inl KeyError | Some v \<Rightarrow> Inr v)
                 | _ \<Rightarrow> Inl TypeError)
             | _ \<Rightarrow> Inl TypeError) = Inr y"
  then obtain a kvs where x: "x = PRef a" "obj_at h a = Some (ODict kvs)" "map_of kvs k = Some y"
    by (auto split: pval.splits option.splits obj.splits)
  then have "y \<in> vals_of (ODict kvs)" by (force simp: vals_of_def dest: map_of_SomeD)
  then show "fresh_val (length h0) y" using ext_fresh_obj [OF e _ x(2)] assms x(1) by simp
qed

lemma safe_iter:
  assumes "fresh_val (length h0) x"
  shows "safe h0 (list_all (fresh_val (length h0))) (h_iter x)"
  unfolding h_iter_def
proof (rule safe_read, intro allI impI)
  fix h ys
  assume e: "ext h0 h"
    and r: "(case x of PRef a \<Rightarrow>
                (case obj_at h a of
                   Some (OList xs) \<Rightarrow> Inr xs
                 | Some (ODict kvs) \<Rightarrow> Inr (map (\<lambda>kv. PStr (fst kv)) kvs)
                 | None \<Rightarrow> Inl TypeError)
             | PStr s \<Rightarrow> Inr (map (\<lambda>c. PStr [c]) s)
             | _ \<Rightarrow> Inl TypeError) = Inr ys"
  show "list_all (fresh_val (length h0)) ys"
  proof (cases x)
    case (PRef a)
    show ?thesis
    proof (cases "obj_at h a")
      case None
      then show ?thesis using r PRef by simp
    next
      case (Some ob)
      show ?thesis
      proof (cases ob)
        case (ODict kvs)
        then show ?thesis using r PRef Some by (auto simp: list_all_iff)
      next
        case (OList xs)
        then have "\<forall>v \<in> set xs. fresh_val (length h0) v"
          using ext_fresh_obj [OF e _ Some] assms PRef by (simp add: vals_of_def)
        then show ?thesis using r PRef Some OList by (auto simp: list_all_iff)
      qed
    qed
  qed (use r in \<open>auto simp: list_all_iff\<close>)
qed

text \<open>Statements that change or create an object.\<close>

lemma ext_update:
  assumes "ext h0 h" "length h0 \<le> a" "\<forall>v \<in> vals_of ob. fresh_val (length h0) v"
  shows "ext h0 (h[a := ob])"
proof -
  have "take (length h0) (h[a := ob]) = take (length h0) h"
    using assms(2) by simp
  moreover have "\<forall>v \<in> vals_of ((h[a := ob]) ! b). fresh_val (length h0) v"
    if "length h0 \<le> b" "b < length h" for b
    using that assms by (cases "b = a") (auto simp: ext_def)
  ultimately show ?thesis using assms(1) unfolding ext_def by auto
qed

lemma ext_alloc:
  assumes "ext h0 h" "\<forall>v \<in> vals_of ob. fresh_val (length h0) v"
  shows "ext h0 (h @ [ob])"
proof -
  have "\<forall>v \<in> vals_of ((h @ [ob]) ! b). fresh_val (length h0) v"
    if "length h0 \<le> b" "b < Suc (length h)" for b
    using that assms by (cases "b = length h") (auto simp: ext_def nth_append)
  then show ?thesis using assms(1) by (auto simp: ext_def)
qed

lemma vals_of_dict_set: "vals_of (ODict (dict_set kvs k v)) \<subseteq> insert v (vals_of (ODict kvs))"
  using set_dict_set [of kvs k v] by (auto simp: vals_of_def)

lemma safe_setitem:
  assumes "fresh_val (length h0) x" "fresh_val (length h0) v"
  shows "safe h0 (\<lambda>u. True) (h_setitem x k v)"
proof (rule safeI)
  fix h r h' assume e: "ext h0 h" and m: "h_setitem x k v h = (r, h')"
  show "ext h0 h' \<and> (\<forall>x. r = Inr x \<longrightarrow> True)"
  proof (cases "\<exists>a kvs. x = PRef a \<and> obj_at h a = Some (ODict kvs)")
    case True
    then obtain a kvs where x: "x = PRef a" "obj_at h a = Some (ODict kvs)" by blast
    have "\<forall>w \<in> vals_of (ODict kvs). fresh_val (length h0) w"
      using ext_fresh_obj [OF e _ x(2)] assms(1) x(1) by simp
    then have "\<forall>w \<in> vals_of (ODict (dict_set kvs k v)). fresh_val (length h0) w"
      using vals_of_dict_set [of kvs k v] assms(2) by auto
    then have "ext h0 (h[a := ODict (dict_set kvs k v)])"
      using ext_update [OF e] assms(1) x(1) by simp
    then show ?thesis using m x by (simp add: h_setitem_def)
  next
    case False
    then have "h' = h" using m
      by (auto simp: h_setitem_def split: pval.splits option.splits obj.splits)
    then show ?thesis using e by simp
  qed
qed

lemma safe_append:
  assumes "fresh_val (length h0) x" "fresh_val (length h0) v"
  shows "safe h0 (\<lambda>u. True) (h_append x v)"
proof (rule safeI)
  fix h r h' assume e: "ext h0 h" and m: "h_append x v h = (r, h')"
  show "ext h0 h' \<and> (\<forall>x. r = Inr x \<longrightarrow> True)"
  proof (cases "\<exists>a xs. x = PRef a \<and> obj_at h a = Some (OList xs)")
    case True
    then obtain a xs where x: "x = PRef a" "obj_at h a = Some (OList xs)" by blast
    have "\<forall>w \<in> vals_of (OList xs). fresh_val (length h0) w"
      using ext_fresh_obj [OF e _ x(2)] assms(1) x(1) by simp
    then have "\<forall>w \<in> vals_of (OList (xs @ [v])). fresh_val (length h0) w"
      using assms(2) by (auto simp: vals_of_def)
    then have "ext h0 (h[a := OList (xs @ [v])])"
      using ext_update [OF e] assms(1) x(1) by simp
    then show ?thesis using m x by (simp add: h_append_def)
  next
    case False
    then have "h' = h" using m
      by (auto simp: h_append_def split: pval.splits option.splits obj.splits)
    then show ?thesis using e by simp
  qed
qed

lemma ext_length: "ext h0 h \<Longrightarrow> length h0 \<le> length h"
  by (simp add: ext_def)

lemma safe_new_list:
  assumes "list_all (fresh_val (length h0)) xs"
  shows "safe h0 (fresh_val (length h0)) (new_list xs)"
proof (rule safeI)
  fix h r h' assume e: "ext h0 h" and m: "new_list xs h = (r, h')"
  have "ext h0 (h @ [OList xs])"
    using ext_alloc [OF e] assms by (simp add: vals_of_def list_all_iff)
  then show "ext h0 h' \<and> (\<forall>x. r = Inr x \<longrightarrow> fresh_val (length h0) x)"
    using m ext_length [OF e] by (auto simp: new_list_def)
qed

lemma safe_new_dict:
  assumes "list_all (fresh_val (length h0)) (map snd kvs)"
  shows "safe h0 (fresh_val (length h0)) (new_dict kvs)"
proof (rule safeI)
  fix h r h' assume e: "ext h0 h" and m: "new_dict kvs h = (r, h')"
  have "ext h0 (h @ [ODict kvs])"
    using ext_alloc [OF e] assms by (simp add: vals_of_def list_all_iff)
  then show "ext h0 h' \<and> (\<forall>x. r = Inr x \<longrightarrow> fresh_val (length h0) x)"
    using m ext_length [OF e] by (auto simp: new_dict_def)
qed


text \<open>The copy.\<close>

lemma copy_inv_new:
  assumes "copy_inv h0 (memo, h)" "vals_of ob = {}"
  shows "copy_inv h0 (memo(a \<mapsto> length h), h @ [ob])"
  using assms ext_alloc [of h0 h ob] ext_length [of h0 h] by (auto simp: copy_inv_def)

lemma copy_inv_fill:
  assumes "copy_inv h0 (memo, h)" "length h0 \<le> b" "\<forall>v \<in> vals_of ob. fresh_val (length h0) v"
  shows "copy_inv h0 (memo, h[b := ob])"
  using assms ext_update [of h0 h b ob] by (auto simp: copy_inv_def)

lemma copy_safe:
  "(\<forall>r s'. copy_val depth x s = (r, s') \<longrightarrow> copy_inv h0 s \<longrightarrow>
      copy_inv h0 s' \<and> (\<forall>y. r = Inr y \<longrightarrow> fresh_val (length h0) y))"
  "(\<forall>r s'. copy_vals depth xs s = (r, s') \<longrightarrow> copy_inv h0 s \<longrightarrow>
      copy_inv h0 s' \<and> (\<forall>ys. r = Inr ys \<longrightarrow> list_all (fresh_val (length h0)) ys))"
  "(\<forall>r s'. copy_items depth kvs s = (r, s') \<longrightarrow> copy_inv h0 s \<longrightarrow>
      copy_inv h0 s' \<and> (\<forall>ys. r = Inr ys \<longrightarrow> list_all (fresh_val (length h0)) (map snd ys)))"
proof (induction depth x s and depth xs s and depth kvs s
       rule: copy_val_copy_vals_copy_items.induct)
  case (6 depth a memo h)
  show ?case
  proof (intro allI impI)
    fix r s'
    assume c: "copy_val (Suc depth) (PRef a) (memo, h) = (r, s')" and i: "copy_inv h0 (memo, h)"
    have len: "length h0 \<le> length h" using i by (simp add: copy_inv_def ext_length)
    show "copy_inv h0 s' \<and> (\<forall>y. r = Inr y \<longrightarrow> fresh_val (length h0) y)"
    proof (cases "memo a")
      case (Some b)
      then show ?thesis using c i by (auto simp: copy_inv_def)
    next
      case None
      show ?thesis
      proof (cases "obj_at h a")
        case no: None
        then have "length h0 \<le> a" using len by (simp add: obj_at_def split: if_splits)
        then show ?thesis using c i None no by auto
      next
        case (Some ob)
        show ?thesis
        proof (cases ob)
          case (OList xs)
          let ?s1 = "(memo(a \<mapsto> length h), h @ [OList []])"
          have i1: "copy_inv h0 ?s1" by (rule copy_inv_new [OF i]) (simp add: vals_of_def)
          obtain r1 memo' h' where c1: "copy_vals depth xs ?s1 = (r1, memo', h')"
            by (cases "copy_vals depth xs ?s1") auto
          have ih: "copy_inv h0 (memo', h') \<and>
                    (\<forall>ys. r1 = Inr ys \<longrightarrow> list_all (fresh_val (length h0)) ys)"
            using "6.IH"(2) [OF None Some OList refl] c1 i1 by blast
          show ?thesis
          proof (cases r1)
            case (Inl e)
            then show ?thesis using c None Some OList c1 ih by (auto simp: Let_def)
          next
            case (Inr ys)
            have "copy_inv h0 (memo', h'[length h := OList ys])"
              using ih Inr len by (intro copy_inv_fill) (auto simp: vals_of_def list_all_iff)
            then show ?thesis using c None Some OList c1 Inr len by (auto simp: Let_def)
          qed
        next
          case (ODict kvs)
          let ?s1 = "(memo(a \<mapsto> length h), h @ [ODict []])"
          have i1: "copy_inv h0 ?s1" by (rule copy_inv_new [OF i]) (simp add: vals_of_def)
          obtain r1 memo' h' where c1: "copy_items depth kvs ?s1 = (r1, memo', h')"
            by (cases "copy_items depth kvs ?s1") auto
          have ih: "copy_inv h0 (memo', h') \<and>
                    (\<forall>ys. r1 = Inr ys \<longrightarrow> list_all (fresh_val (length h0)) (map snd ys))"
            using "6.IH"(1) [OF None Some ODict refl] c1 i1 by blast
          show ?thesis
          proof (cases r1)
            case (Inl e)
            then show ?thesis using c None Some ODict c1 ih by (auto simp: Let_def)
          next
            case (Inr ys)
            have "copy_inv h0 (memo', h'[length h := ODict ys])"
              using ih Inr len by (intro copy_inv_fill) (auto simp: vals_of_def list_all_iff)
            then show ?thesis using c None Some ODict c1 Inr len by (auto simp: Let_def)
          qed
        qed
      qed
    qed
  qed
next
  case (8 depth x xs s)
  show ?case
  proof (intro allI impI)
    fix r s'
    assume c: "copy_vals depth (x # xs) s = (r, s')" and i: "copy_inv h0 s"
    obtain r1 s1 where c1: "copy_val depth x s = (r1, s1)" by (cases "copy_val depth x s")
    have ih1: "copy_inv h0 s1 \<and> (\<forall>y. r1 = Inr y \<longrightarrow> fresh_val (length h0) y)"
      using "8.IH"(1) c1 i by blast
    show "copy_inv h0 s' \<and> (\<forall>ys. r = Inr ys \<longrightarrow> list_all (fresh_val (length h0)) ys)"
    proof (cases r1)
      case (Inl e)
      then show ?thesis using c c1 ih1 by auto
    next
      case (Inr y)
      obtain r2 s2 where c2: "copy_vals depth xs s1 = (r2, s2)" by (cases "copy_vals depth xs s1")
      have ih2: "copy_inv h0 s2 \<and> (\<forall>ys. r2 = Inr ys \<longrightarrow> list_all (fresh_val (length h0)) ys)"
        using "8.IH"(2) [OF c1 [symmetric] Inr] c2 ih1 by blast
      show ?thesis using c c1 Inr c2 ih1 ih2 by (cases r2) auto
    qed
  qed
next
  case (10 depth kv kvs s)
  show ?case
  proof (intro allI impI)
    fix r s'
    assume c: "copy_items depth (kv # kvs) s = (r, s')" and i: "copy_inv h0 s"
    obtain r1 s1 where c1: "copy_val depth (snd kv) s = (r1, s1)"
      by (cases "copy_val depth (snd kv) s")
    have ih1: "copy_inv h0 s1 \<and> (\<forall>y. r1 = Inr y \<longrightarrow> fresh_val (length h0) y)"
      using "10.IH"(1) c1 i by blast
    show "copy_inv h0 s' \<and> (\<forall>ys. r = Inr ys \<longrightarrow> list_all (fresh_val (length h0)) (map snd ys))"
    proof (cases r1)
      case (Inl e)
      then show ?thesis using c c1 ih1 by auto
    next
      case (Inr y)
      obtain r2 s2 where c2: "copy_items depth kvs s1 = (r2, s2)"
        by (cases "copy_items depth kvs s1")
      have ih2: "copy_inv h0 s2 \<and>
                 (\<forall>ys. r2 = Inr ys \<longrightarrow> list_all (fresh_val (length h0)) (map snd ys))"
        using "10.IH"(2) [OF c1 [symmetric] Inr] c2 ih1 by blast
      show ?thesis using c c1 Inr c2 ih1 ih2 by (cases r2) auto
    qed
  qed
qed auto

lemma safe_deepcopy: "safe h0 (fresh_val (length h0)) (h_deepcopy depth x)"
proof (rule safeI)
  fix h r h' assume e: "ext h0 h" and m: "h_deepcopy depth x h = (r, h')"
  obtain memo' where c: "copy_val depth x (Map.empty, h) = (r, memo', h')"
    using m by (cases "copy_val depth x (Map.empty, h)") (auto simp: h_deepcopy_def)
  have "copy_inv h0 (Map.empty, h)" using e by (simp add: copy_inv_def)
  then have "copy_inv h0 (memo', h') \<and> (\<forall>y. r = Inr y \<longrightarrow> fresh_val (length h0) y)"
    using copy_safe(1) [of depth x "(Map.empty, h)" h0] c by blast
  then show "ext h0 h' \<and> (\<forall>y. r = Inr y \<longrightarrow> fresh_val (length h0) y)"
    by (simp add: copy_inv_def)
qed


text \<open>One rule for each statement: what is read through a new reference is new.\<close>

lemma safe_cases:
  assumes "P \<Longrightarrow> safe h0 Q m" "\<not> P \<Longrightarrow> safe h0 (\<lambda>x. True) m"
  shows "safe h0 (\<lambda>x. P \<longrightarrow> Q x) m"
proof (cases P)
  case True
  then show ?thesis using assms(1) by (auto intro: safe_weaken)
next
  case False
  then show ?thesis using assms(2) by (auto intro: safe_weaken)
qed

lemma safe_getitem_new:
  "safe h0 (\<lambda>v. fresh_val (length h0) x \<longrightarrow> fresh_val (length h0) v) (h_getitem x k)"
  by (rule safe_cases) (auto intro: safe_getitem safe_getitem_any)

lemma safe_get_default_new:
  "safe h0 (\<lambda>v. fresh_val (length h0) x \<and> fresh_val (length h0) d \<longrightarrow> fresh_val (length h0) v)
     (h_get_default x k d)"
  by (rule safe_cases) (auto intro: safe_get_default safe_get_default_any)

lemma safe_get_new:
  "safe h0 (\<lambda>v. fresh_val (length h0) x \<longrightarrow> fresh_val (length h0) v) (h_get x k)"
  unfolding h_get_def using safe_get_default_new [of h0 x PNull k] by simp

lemma safe_iter_new:
  "safe h0 (\<lambda>vs. fresh_val (length h0) x \<longrightarrow> list_all (fresh_val (length h0)) vs) (h_iter x)"
  by (rule safe_cases) (auto intro: safe_iter safe_iter_any)

lemma seq_assoc: "seq (seq m f) g = seq m (\<lambda>x. seq (f x) g)"
  by (auto simp: seq_def fun_eq_iff split: prod.splits sum.splits)

lemma seq_ret: "seq (ret x) f = f x"
  by (simp add: seq_def ret_def)

lemma seq_if: "seq (if c then a else b) f = (if c then seq a f else seq b f)"
  by simp

lemma seq_case_option:
  "seq (case x of None \<Rightarrow> a | Some y \<Rightarrow> b y) f = (case x of None \<Rightarrow> seq a f | Some y \<Rightarrow> seq (b y) f)"
  by (cases x) simp_all

lemmas seq_simps = seq_assoc seq_ret seq_if seq_case_option

lemmas safe_prims = safe_contains safe_truthy safe_str safe_print safe_has_append safe_getitem_new
  safe_get_default_new safe_get_new safe_iter_new safe_setitem safe_append safe_new_list
  safe_new_dict safe_deepcopy

lemmas safe_steps = safe_prims [THEN safe_seq] safe_ret safe_raise safe_prims [THEN safe_weaken]

lemma safe_has_nested: "safe h0 (\<lambda>b. True) (h_has_nested x k1 k2)"
  unfolding h_has_nested_def by (intro safe_steps conjI impI | simp add: seq_simps)+

lemma safe_has_both: "safe h0 (\<lambda>b. True) (h_has_both x a b)"
  unfolding h_has_both_def by (intro safe_steps conjI impI | simp add: seq_simps)+

lemma safe_get_nested:
  "safe h0 (\<lambda>v. fresh_val (length h0) x \<longrightarrow> fresh_val (length h0) v) (h_get_nested x k1 k2)"
  unfolding h_get_nested_def by (intro safe_steps conjI impI | simp add: seq_simps)+

lemma safe_set_nested:
  "fresh_val (length h0) x \<Longrightarrow> fresh_val (length h0) v \<Longrightarrow>
   safe h0 (\<lambda>u. True) (h_set_nested x k1 k2 v)"
  unfolding h_set_nested_def by (intro safe_steps conjI impI | simp add: seq_simps)+

lemma safe_store_list:
  "fresh_val (length h0) x \<Longrightarrow> list_all (fresh_val (length h0)) xs \<Longrightarrow>
   safe h0 (\<lambda>u. True) (h_store_list x k1 k2 xs)"
  unfolding h_store_list_def
  by (intro safe_steps safe_set_nested conjI impI | simp add: seq_simps)+


named_theorems safe_intro

declare safe_steps [safe_intro]
declare safe_has_nested [THEN safe_seq, safe_intro]
declare safe_has_both [THEN safe_seq, safe_intro]
declare safe_get_nested [THEN safe_seq, safe_intro] safe_get_nested [THEN safe_weaken, safe_intro]
declare safe_set_nested [THEN safe_seq, safe_intro] safe_set_nested [THEN safe_weaken, safe_intro]
declare safe_store_list [THEN safe_seq, safe_intro] safe_store_list [THEN safe_weaken, safe_intro]

lemma safe_find_single:
  "safe h0 (\<lambda>r. list_all (fresh_val (length h0)) es \<longrightarrow> list_all (fresh_val (length h0)) r)
     (h_find_single depth es key_name value_to_find)"
proof (induction es)
  case Nil
  then show ?case by (simp add: safe_ret)
next
  case (Cons e es)
  show ?case
    by (simp add: seq_simps)
       (intro safe_intro safe_weaken [OF Cons] conjI impI | simp)+
qed

declare safe_find_single [THEN safe_seq, safe_intro] safe_find_single [THEN safe_weaken, safe_intro]

lemma safe_find_and_filter_single:
  "safe h0 (\<lambda>r. fresh_val (length h0) x \<longrightarrow> list_all (fresh_val (length h0)) r)
     (h_find_and_filter_single depth x key_name value_to_find)"
  unfolding h_find_and_filter_single_def
  by (intro safe_intro conjI impI | simp add: seq_simps)+

declare safe_find_and_filter_single [THEN safe_seq, safe_intro]
  safe_find_and_filter_single [THEN safe_weaken, safe_intro]

lemma safe_skipped: "safe h0 (\<lambda>b. True) (h_skipped depth entity target_nr)"
  unfolding h_skipped_def
  by (cases target_nr) (intro safe_intro conjI impI | simp add: seq_simps)+

declare safe_skipped [THEN safe_seq, safe_intro]

lemma safe_folgeposition_in_grundtexts:
  "list_all (fresh_val (length h0)) gts \<Longrightarrow>
   safe h0 (list_all (fresh_val (length h0)))
     (h_folgeposition_in_grundtexts depth gts target_grundtext_nr target_value)"
proof (induction gts)
  case Nil
  then show ?case by (simp add: safe_ret)
next
  case (Cons gt gts)
  then have ih: "safe h0 (list_all (fresh_val (length h0)))
     (h_folgeposition_in_grundtexts depth gts target_grundtext_nr target_value)"
    and gt: "fresh_val (length h0) gt" by simp_all
  show ?case
    using gt
    by (simp add: seq_simps)
       (intro safe_intro ih conjI impI | simp)+
qed

declare safe_folgeposition_in_grundtexts [THEN safe_seq, safe_intro]
  safe_folgeposition_in_grundtexts [safe_intro]

lemma safe_folgeposition_in_ulg:
  "fresh_val (length h0) ulg \<Longrightarrow>
   safe h0 (list_all (fresh_val (length h0)))
     (h_folgeposition_in_ulg depth ulg target_grundtext_nr target_value)"
  unfolding h_folgeposition_in_ulg_def
  by (intro safe_intro conjI impI | simp add: seq_simps)+

declare safe_folgeposition_in_ulg [THEN safe_seq, safe_intro]

lemma safe_folgeposition_in_ulgs:
  "list_all (fresh_val (length h0)) ulgs \<Longrightarrow>
   safe h0 (list_all (fresh_val (length h0)))
     (h_folgeposition_in_ulgs depth ulgs target_ulg_nr target_grundtext_nr target_value)"
proof (induction ulgs)
  case Nil
  then show ?case by (simp add: safe_ret)
next
  case (Cons ulg ulgs)
  then have ih: "safe h0 (list_all (fresh_val (length h0)))
     (h_folgeposition_in_ulgs depth ulgs target_ulg_nr target_grundtext_nr target_value)"
    and ulg: "fresh_val (length h0) ulg" by simp_all
  show ?case
    using ulg
    by (simp add: seq_simps)
       (intro safe_intro ih conjI impI | simp)+
qed

declare safe_folgeposition_in_ulgs [THEN safe_seq, safe_intro]

lemma safe_grundtext_in_ulgs:
  "list_all (fresh_val (length h0)) ulgs \<Longrightarrow>
   safe h0 (list_all (fresh_val (length h0)))
     (h_grundtext_in_ulgs depth ulgs target_ulg_nr target_value)"
proof (induction ulgs)
  case Nil
  then show ?case by (simp add: safe_ret)
next
  case (Cons ulg ulgs)
  then have ih: "safe h0 (list_all (fresh_val (length h0)))
     (h_grundtext_in_ulgs depth ulgs target_ulg_nr target_value)"
    and ulg: "fresh_val (length h0) ulg" by simp_all
  show ?case
    using ulg
    by (simp add: seq_simps)
       (intro safe_intro ih conjI impI | simp)+
qed

declare safe_grundtext_in_ulgs [THEN safe_seq, safe_intro]

lemma safe_lg_keep_ulg:
  "fresh_val (length h0) u \<Longrightarrow> safe h0 (fresh_val (length h0)) (h_lg_keep_ulg depth stdout u target_value)"
  unfolding h_lg_keep_ulg_def
  by (intro safe_intro conjI impI | simp add: seq_simps)+

lemma safe_lg_keep_grundtext:
  "fresh_val (length h0) u \<Longrightarrow>
   safe h0 (fresh_val (length h0)) (h_lg_keep_grundtext depth u target_ulg_nr target_value)"
  unfolding h_lg_keep_grundtext_def
  by (intro safe_intro conjI impI | simp add: seq_simps)+

lemma safe_lg_keep_folgeposition:
  "fresh_val (length h0) u \<Longrightarrow>
   safe h0 (fresh_val (length h0))
     (h_lg_keep_folgeposition depth u target_ulg_nr target_grundtext_nr target_value)"
  unfolding h_lg_keep_folgeposition_def
  by (intro safe_intro conjI impI | simp add: seq_simps)+

lemma safe_ulg_keep_grundtext:
  "fresh_val (length h0) u \<Longrightarrow>
   safe h0 (fresh_val (length h0)) (h_ulg_keep_grundtext depth stdout u target_value)"
  unfolding h_ulg_keep_grundtext_def
  by (intro safe_intro conjI impI | simp add: seq_simps)+

lemma safe_ulg_keep_folgeposition:
  "fresh_val (length h0) u \<Longrightarrow>
   safe h0 (fresh_val (length h0)) (h_ulg_keep_folgeposition depth u target_grundtext_nr target_value)"
  unfolding h_ulg_keep_folgeposition_def
  by (intro safe_intro conjI impI | simp add: seq_simps)+

lemma safe_grundtext_keep_folgeposition:
  "fresh_val (length h0) u \<Longrightarrow>
   safe h0 (fresh_val (length h0)) (h_grundtext_keep_folgeposition depth stdout u target_value)"
  unfolding h_grundtext_keep_folgeposition_def
  by (intro safe_intro conjI impI | simp add: seq_simps)+

lemmas safe_branches = safe_lg_keep_ulg safe_lg_keep_grundtext safe_lg_keep_folgeposition
  safe_ulg_keep_grundtext safe_ulg_keep_folgeposition safe_grundtext_keep_folgeposition

lemma safe_zoom_branches:
  "fresh_val (length h0) u \<Longrightarrow>
   safe h0 (\<lambda>r. fresh_val (length h0) r \<or> r = json_input)
     (h_zoom_branches depth stdout json_input target_entity_type target_str ulg_str grundtext_str
        u is_lg is_ulg is_grundtext)"
  unfolding h_zoom_branches_def
  by (intro safe_intro safe_branches [THEN safe_weaken] conjI impI | simp add: seq_simps)+

lemma safe_filter_json_entity:
  "safe h0 (\<lambda>r. fresh_val (length h0) r \<or> r = json_input)
     (h_filter_json_entity depth stdout json_input target_entity_type target_value target_ulg_nr
        target_grundtext_nr)"
  unfolding h_filter_json_entity_def Let_def
  by (intro safe_intro safe_zoom_branches conjI impI | simp add: seq_simps)+


text \<open>The keep filter.\<close>

lemma fresh_opt_simps [simp]: "fresh_opt n None" "fresh_opt n (Some x) = fresh_val n x"
  by (simp_all add: fresh_opt_def)

lemma fresh_dict_Nil [simp]: "fresh_dict n []"
  by (simp add: fresh_dict_def)

lemma fresh_dict_set: "fresh_dict n kvs \<Longrightarrow> fresh_val n v \<Longrightarrow> fresh_dict n (dict_set kvs k v)"
  using set_dict_set [of kvs k v] by (auto simp: fresh_dict_def list_all_iff)

lemma fresh_dict_lookup: "fresh_dict n kvs \<Longrightarrow> map_of kvs k = Some v \<Longrightarrow> fresh_val n v"
  by (auto simp: fresh_dict_def list_all_iff dest!: map_of_SomeD)

lemma safe_find_by_nr:
  "safe h0 (\<lambda>r. list_all (fresh_val (length h0)) xs \<longrightarrow> fresh_opt (length h0) r)
     (h_find_by_nr depth xs nr)"
proof (induction xs)
  case Nil
  then show ?case by (simp add: safe_ret)
next
  case (Cons x xs)
  show ?case
    by (simp add: seq_simps)
       (intro safe_intro safe_weaken [OF Cons] conjI impI | simp)+
qed

declare safe_find_by_nr [THEN safe_seq, safe_intro]

lemma safe_if_truthy:
  "safe h0 (\<lambda>r. fresh_opt (length h0) found \<longrightarrow> fresh_opt (length h0) r) (h_if_truthy found)"
  unfolding h_if_truthy_def
  by (cases found) (intro safe_intro conjI impI | simp add: seq_simps)+

declare safe_if_truthy [THEN safe_seq, safe_intro] safe_if_truthy [THEN safe_weaken, safe_intro]

lemma safe_children: "safe h0 (\<lambda>r. True) (h_children x k1 k2)"
  unfolding h_children_def
  by (intro safe_intro conjI impI | simp add: seq_simps)+

declare safe_children [THEN safe_seq, safe_intro]

lemma safe_find_target_ulg: "safe h0 (\<lambda>r. True) (h_find_target_ulg depth json_input ulg_nr)"
  unfolding h_find_target_ulg_def
  by (intro safe_intro conjI impI | simp add: seq_simps)+

lemma safe_find_target_gt: "safe h0 (\<lambda>r. True) (h_find_target_gt depth target_ulg gt_nr)"
  unfolding h_find_target_gt_def
  by (intro safe_intro conjI impI | simp add: seq_simps)+

declare safe_find_target_ulg [THEN safe_seq, safe_intro]
declare safe_find_target_gt [THEN safe_seq, safe_intro]

lemma safe_append_copy:
  "fresh_val (length h0) container \<Longrightarrow> safe h0 (\<lambda>u. True) (h_append_copy depth container x)"
  unfolding h_append_copy_def
  by (intro safe_intro conjI impI | simp add: seq_simps)+

declare safe_append_copy [THEN safe_seq, safe_intro] safe_append_copy [safe_intro]

lemma safe_result_ulg_for:
  assumes "fresh_val (length h0) result" "fresh_dict (length h0) added_ulgs"
  shows "safe h0 (\<lambda>r. fresh_dict (length h0) (fst r) \<and> fresh_val (length h0) (snd r))
           (h_result_ulg_for depth result added_ulgs ulg_nr target_ulg)"
proof (cases "map_of added_ulgs ulg_nr")
  case None
  then show ?thesis
    using assms unfolding h_result_ulg_for_def
    by (simp add: seq_simps) (intro safe_intro conjI impI | simp add: fresh_dict_set)+
next
  case (Some result_ulg)
  then show ?thesis
    using assms fresh_dict_lookup [OF assms(2) Some]
    by (simp add: h_result_ulg_for_def safe_ret)
qed

lemma safe_find_fp: "safe h0 (\<lambda>r. True) (h_find_fp fps fp_letter)"
proof (induction fps)
  case Nil
  then show ?case by (simp add: safe_ret)
next
  case (Cons fp fps)
  show ?case
    by (simp add: seq_simps) (intro safe_intro Cons conjI impI | simp)+
qed

lemma safe_ftnrs: "safe h0 (\<lambda>r. True) (h_ftnrs fps)"
proof (induction fps)
  case Nil
  then show ?case by (simp add: safe_ret)
next
  case (Cons fp fps)
  show ?case
    by (simp add: seq_simps) (intro safe_intro Cons [THEN safe_seq] conjI impI | simp)+
qed

lemma safe_folgepositionen: "safe h0 (\<lambda>r. True) (h_folgepositionen gt)"
  unfolding h_folgepositionen_def
  by (intro safe_intro conjI impI | simp add: seq_simps)+

declare safe_find_fp [THEN safe_seq, safe_intro] safe_ftnrs [THEN safe_seq, safe_intro]
  safe_folgepositionen [THEN safe_seq, safe_intro]

lemma safe_add_letter:
  "fresh_val (length h0) gt \<Longrightarrow> safe h0 (\<lambda>u. True) (h_add_letter depth target_gt fp_letter gt)"
  unfolding h_add_letter_def
  by (intro safe_intro conjI impI allI | simp add: seq_simps split: option.splits)+

declare safe_add_letter [THEN safe_seq, safe_intro] safe_add_letter [safe_intro]

lemma safe_keep_in_ulg:
  "fresh_val (length h0) result_ulg \<Longrightarrow>
   safe h0 (\<lambda>u. True) (h_keep_in_ulg depth target_gt gt_nr fp_letter result_ulg)"
  unfolding h_keep_in_ulg_def
  by (intro safe_intro conjI impI allI | simp add: seq_simps split: option.splits)+

declare safe_keep_in_ulg [THEN safe_seq, safe_intro]

lemma safe_keep_round:
  assumes "fresh_val (length h0) result" "fresh_dict (length h0) added_ulgs"
  shows "safe h0 (fresh_dict (length h0))
           (h_keep_round depth stdout json_input result added_ulgs nr)"
  using assms unfolding h_keep_round_def
  by (intro safe_intro safe_result_ulg_for [THEN safe_seq] conjI impI allI
      | simp add: seq_simps split: option.splits prod.splits)+

lemma safe_keep_loop:
  assumes "fresh_val (length h0) result" "fresh_dict (length h0) added_ulgs"
  shows "safe h0 (fresh_dict (length h0))
           (h_keep_loop depth stdout json_input result added_ulgs nrs)"
  using assms(2)
proof (induction nrs arbitrary: added_ulgs)
  case Nil
  then show ?case by (simp add: safe_ret)
next
  case (Cons nr nrs)
  show ?case
    using safe_seq [OF safe_keep_round [OF assms(1) Cons.prems] Cons.IH] by simp
qed

lemma safe_emptied_copy: "safe h0 (fresh_val (length h0)) (h_emptied_copy depth json_input)"
  unfolding h_emptied_copy_def
  by (intro safe_intro conjI impI | simp add: seq_simps)+

lemma safe_filter_json_by_full_nr:
  "safe h0 (fresh_val (length h0))
     (h_filter_json_by_full_nr depth stdout json_input full_nrs_to_keep)"
  unfolding h_filter_json_by_full_nr_def
  by (intro safe_emptied_copy safe_emptied_copy [THEN safe_seq]
        safe_keep_loop [THEN safe_seq] safe_intro conjI impI | simp)+


text \<open>Reading a tree touches only the objects that exist.\<close>

lemma obj_at_grown:
  assumes "take (length h) h' = h" "obj_at h a = Some ob"
  shows "obj_at h' a = Some ob"
proof -
  from assms(2) have a: "a < length h" "h ! a = ob" by (auto simp: obj_at_def split: if_splits)
  have "length (take (length h) h') = length h" using assms(1) by simp
  then have l: "length h \<le> length h'" by simp
  have "take (length h) h' ! a = h' ! a" using a(1) by simp
  then have "h' ! a = ob" using a(2) assms(1) by simp
  then show ?thesis using a(1) l by (simp add: obj_at_def)
qed

lemma those_map_cong:
  assumes "\<forall>x \<in> set xs. \<forall>y. f x = Some y \<longrightarrow> g x = Some y" "those (map f xs) = Some ys"
  shows "those (map g xs) = Some ys"
  using assms
proof (induction xs arbitrary: ys)
  case Nil
  then show ?case by simp
next
  case (Cons x xs)
  then show ?case by (auto split: option.splits)
qed

lemma read_json_grown:
  assumes g: "take (length h) h' = h"
  shows "read_json d h v = Some j \<Longrightarrow> read_json d h' v = Some j"
proof (induction d arbitrary: v j)
  case 0
  then show ?case by (cases v) simp_all
next
  case (Suc depth)
  show ?case
  proof (cases v)
    case (PRef a)
    from Suc.prems PRef obtain ob where ob: "obj_at h a = Some ob"
      by (auto split: option.splits)
    have ob': "obj_at h' a = Some ob" by (rule obj_at_grown [OF g ob])
    show ?thesis
    proof (cases ob)
      case (OList xs)
      from Suc.prems PRef ob OList obtain ys where
        ys: "those (map (read_json depth h) xs) = Some ys" "j = JList ys"
        by auto
      have "those (map (read_json depth h') xs) = Some ys"
        by (rule those_map_cong [OF _ ys(1)]) (use Suc.IH in blast)
      then show ?thesis using PRef ob' OList ys(2) by simp
    next
      case (ODict kvs)
      let ?f = "\<lambda>hh kv. map_option (Pair (fst kv)) (read_json depth hh (snd kv))"
      from Suc.prems PRef ob ODict obtain ys where
        ys: "those (map (?f h) kvs) = Some ys" "j = JObj ys"
        by auto
      have "those (map (?f h') kvs) = Some ys"
        by (rule those_map_cong [OF _ ys(1)]) (use Suc.IH in auto)
      then show ?thesis using PRef ob' ODict ys(2) by simp
    qed
  qed (use Suc.prems in simp_all)
qed

lemma safe_run:
  assumes "safe h Q m" "m h = (r, h')"
  shows "take (length h) h' = h" "r = Inr x \<Longrightarrow> Q x" "ext h h'"
  using safeD [OF assms(1) ext_refl assms(2)] by (simp_all add: ext_def)


text \<open>The deep copy of a dictionary, and the run of \<open>filter_json_entity\<close> on a root
  that is a dictionary.\<close>

lemma copy_length:
  "length (snd s) \<le> length (snd (snd (copy_val depth x s)))"
  "length (snd s) \<le> length (snd (snd (copy_vals depth xs s)))"
  "length (snd s) \<le> length (snd (snd (copy_items depth kvs s)))"
proof (induction depth x s and depth xs s and depth kvs s
       rule: copy_val_copy_vals_copy_items.induct)
  case (6 depth a memo h)
  show ?case
  proof (cases "memo a")
    case (Some b)
    then show ?thesis by simp
  next
    case None
    show ?thesis
    proof (cases "obj_at h a")
      case no: None
      then show ?thesis using None by simp
    next
      case (Some ob)
      show ?thesis
      proof (cases ob)
        case (OList xs)
        let ?s1 = "(memo(a \<mapsto> length h), h @ [OList []])"
        have "length (snd ?s1) \<le> length (snd (snd (copy_vals depth xs ?s1)))"
          using "6.IH"(2) [OF None Some OList refl] .
        then show ?thesis using None Some OList
          by (auto simp: Let_def split: prod.splits sum.splits)
      next
        case (ODict kvs)
        let ?s1 = "(memo(a \<mapsto> length h), h @ [ODict []])"
        have "length (snd ?s1) \<le> length (snd (snd (copy_items depth kvs ?s1)))"
          using "6.IH"(1) [OF None Some ODict refl] .
        then show ?thesis using None Some ODict
          by (auto simp: Let_def split: prod.splits sum.splits)
      qed
    qed
  qed
next
  case (8 depth x xs s)
  obtain r1 s1 where c1: "copy_val depth x s = (r1, s1)" by (cases "copy_val depth x s")
  have l1: "length (snd s) \<le> length (snd s1)" using "8.IH"(1) c1 by simp
  show ?case
  proof (cases r1)
    case (Inl e)
    then show ?thesis using c1 l1 by simp
  next
    case (Inr y)
    have "length (snd s1) \<le> length (snd (snd (copy_vals depth xs s1)))"
      using "8.IH"(2) [OF c1 [symmetric] Inr] .
    then show ?thesis using c1 l1 Inr by (auto split: prod.splits sum.splits)
  qed
next
  case (10 depth kv kvs s)
  obtain r1 s1 where c1: "copy_val depth (snd kv) s = (r1, s1)"
    by (cases "copy_val depth (snd kv) s")
  have l1: "length (snd s) \<le> length (snd s1)" using "10.IH"(1) c1 by simp
  show ?case
  proof (cases r1)
    case (Inl e)
    then show ?thesis using c1 l1 by simp
  next
    case (Inr y)
    have "length (snd s1) \<le> length (snd (snd (copy_items depth kvs s1)))"
      using "10.IH"(2) [OF c1 [symmetric] Inr] .
    then show ?thesis using c1 l1 Inr by (auto split: prod.splits sum.splits)
  qed
qed auto

lemma copy_items_keys:
  "copy_items depth kvs s = (Inr kvs', s') \<Longrightarrow> map fst kvs' = map fst kvs"
proof (induction kvs arbitrary: s kvs' s')
  case Nil
  then show ?case by simp
next
  case (Cons kv kvs)
  obtain r1 s1 where c1: "copy_val depth (snd kv) s = (r1, s1)"
    by (cases "copy_val depth (snd kv) s")
  show ?case
  proof (cases r1)
    case (Inl e)
    then show ?thesis using Cons.prems c1 by simp
  next
    case (Inr y)
    obtain r2 s2 where c2: "copy_items depth kvs s1 = (r2, s2)"
      by (cases "copy_items depth kvs s1")
    show ?thesis
    proof (cases r2)
      case (Inl e)
      then show ?thesis using Cons.prems c1 c2 Inr by simp
    next
      case r2: (Inr rest)
      have "map fst rest = map fst kvs" using Cons.IH c2 r2 by simp
      then show ?thesis using Cons.prems c1 c2 Inr r2 by auto
    qed
  qed
qed

lemma deepcopy_dict:
  assumes "obj_at h a = Some (ODict kvs)" "h_deepcopy depth (PRef a) h = (Inr c, h1)"
  shows "\<exists>b kvs'. c = PRef b \<and> obj_at h1 b = Some (ODict kvs') \<and> map fst kvs' = map fst kvs"
proof (cases depth)
  case 0
  then show ?thesis using assms(2) by (simp add: h_deepcopy_def)
next
  case (Suc d)
  let ?s1 = "(Map.empty(a \<mapsto> length h), h @ [ODict []])"
  obtain r1 memo' h' where c1: "copy_items d kvs ?s1 = (r1, memo', h')"
    by (cases "copy_items d kvs ?s1") auto
  have len: "length h < length h'"
    using copy_length(3) [of ?s1 d kvs] c1 by simp
  show ?thesis
  proof (cases r1)
    case (Inl e)
    then show ?thesis using assms c1 Suc by (simp add: h_deepcopy_def Let_def)
  next
    case (Inr kvs')
    have "c = PRef (length h)" "h1 = h'[length h := ODict kvs']"
      using assms c1 Suc Inr by (simp_all add: h_deepcopy_def Let_def)
    moreover have "map fst kvs' = map fst kvs" using c1 Inr copy_items_keys by blast
    ultimately show ?thesis using len by (simp add: obj_at_def)
  qed
qed

lemma dict_has_keys: "map fst kvs' = map fst kvs \<Longrightarrow> dict_has kvs' k = dict_has kvs k"
  by (metis dict_has_iff set_map)

lemma has_both_dict_run:
  "obj_at h b = Some (ODict kvs) \<Longrightarrow>
     h_has_both (PRef b) k1 k2 h = (Inr (dict_has kvs k1 \<and> dict_has kvs k2), h)"
  by (simp add: h_has_both_def seq_def h_contains_def ret_def)

lemma zoom_run:
  assumes "obj_at h a = Some (ODict obj)"
  shows "h_filter_json_entity depth stdout (PRef a) target_entity_type target_value target_ulg_nr
           target_grundtext_nr h =
         (case h_deepcopy depth (PRef a) h of
            (Inl e, h1) \<Rightarrow> (Inl e, h1)
          | (Inr updated_json, h1) \<Rightarrow>
              h_zoom_branches depth stdout (PRef a) target_entity_type (key_str target_value)
                (map_option key_str target_ulg_nr) (map_option key_str target_grundtext_nr)
                updated_json
                (dict_has obj ''lg-eigenschaften'' \<and> dict_has obj ''ulg-liste'')
                (dict_has obj ''ulg-eigenschaften'' \<and> dict_has obj ''positionen'')
                (dict_has obj ''grundtext'' \<and> dict_has obj ''folgeposition'') h1)"
proof -
  obtain r1 h1 where c: "h_deepcopy depth (PRef a) h = (r1, h1)"
    by (cases "h_deepcopy depth (PRef a) h")
  show ?thesis
  proof (cases r1)
    case (Inl e)
    then show ?thesis using c by (simp add: h_filter_json_entity_def Let_def seq_def)
  next
    case (Inr u)
    from deepcopy_dict [OF assms c [unfolded Inr]] obtain b kvs' where
      b: "u = PRef b" "obj_at h1 b = Some (ODict kvs')" "map fst kvs' = map fst obj"
      by blast
    note hb = has_both_dict_run [OF b(2)]
    show ?thesis
      using c Inr
      by (simp add: h_filter_json_entity_def Let_def seq_def b(1) hb dict_has_keys [OF b(3)])
  qed
qed

lemma zoom_branches_passthrough:
  assumes "returns_input obj target_entity_type"
  shows "h_zoom_branches depth stdout json_input target_entity_type target_str ulg_str grundtext_str
           updated_json
           (dict_has obj ''lg-eigenschaften'' \<and> dict_has obj ''ulg-liste'')
           (dict_has obj ''ulg-eigenschaften'' \<and> dict_has obj ''positionen'')
           (dict_has obj ''grundtext'' \<and> dict_has obj ''folgeposition'')
         = seq (h_print stdout (passthrough_message obj target_entity_type)) (\<lambda>u. ret json_input)"
  using assms
  by (auto simp: returns_input_def passthrough_message_def detected_level_def h_zoom_branches_def
      split: if_splits)

lemma safe_zoom_valid:
  assumes "\<not> returns_input obj target_entity_type" "fresh_val (length h0) u"
  shows "safe h0 (fresh_val (length h0))
           (h_zoom_branches depth stdout json_input target_entity_type target_str ulg_str
              grundtext_str u
              (dict_has obj ''lg-eigenschaften'' \<and> dict_has obj ''ulg-liste'')
              (dict_has obj ''ulg-eigenschaften'' \<and> dict_has obj ''positionen'')
              (dict_has obj ''grundtext'' \<and> dict_has obj ''folgeposition''))"
  using assms safe_branches [of h0 u]
  by (auto simp: returns_input_def detected_level_def h_zoom_branches_def split: if_splits)

lemma reaches_fresh:
  "reaches h v b \<Longrightarrow> ext h0 h \<Longrightarrow> fresh_val (length h0) v \<Longrightarrow> length h0 \<le> b"
proof (induction rule: reaches.induct)
  case (reaches_here h a)
  then show ?case by simp
next
  case (reaches_step h a ob v b)
  have a: "length h0 \<le> a" "a < length h" "h ! a = ob"
    using reaches_step.prems reaches_step.hyps(1) by (auto simp: obj_at_def split: if_splits)
  have "fresh_val (length h0) v"
    using reaches_step.hyps(2) a reaches_step.prems(1) by (auto simp: ext_def)
  then show ?case using reaches_step.IH reaches_step.prems(1) by simp
qed


text \<open>
  Claim C9.  Let the dictionary at address \<open>a\<close> stand for the tree \<open>tree\<close> in the store
  \<open>h\<close>.  Whatever the other arguments and the standard output are, and whether the call
  returns or raises,
  \<open>filter_json_entity\<close> and \<open>filter_json_by_full_nr\<close> leave every object that existed
  before the call as it was, and the root still stands for \<open>tree\<close>.  Every object that
  is found from a result of \<open>filter_json_by_full_nr\<close> is new: the result shares nothing
  with the input.  The same holds of a result of \<open>filter_json_entity\<close>, except when the
  root is not recognised or its level does not accept the target type: then the result is
  the input object itself.
\<close>

theorem filters_leave_input_unchanged:
  assumes "read_json d h (PRef a) = Some tree" "obj_at h a = Some (ODict obj)"
  shows "(case h_filter_json_entity depth stdout (PRef a) target_entity_type target_value
                 target_ulg_nr target_grundtext_nr h of
            (r, h') \<Rightarrow>
              take (length h) h' = h \<and> read_json d h' (PRef a) = Some tree \<and>
              (\<forall>v. r = Inr v \<longrightarrow>
                 (if returns_input obj target_entity_type then v = PRef a
                  else \<forall>b. reaches h' v b \<longrightarrow> length h \<le> b))) \<and>
         (case h_filter_json_by_full_nr depth stdout (PRef a) full_nrs_to_keep h of
            (r, h') \<Rightarrow>
              take (length h) h' = h \<and> read_json d h' (PRef a) = Some tree \<and>
              (\<forall>v. r = Inr v \<longrightarrow> (\<forall>b. reaches h' v b \<longrightarrow> length h \<le> b)))"
proof -
  let ?z = "h_filter_json_entity depth stdout (PRef a) target_entity_type target_value
              target_ulg_nr target_grundtext_nr"
  obtain r1 h1 where z: "?z h = (r1, h1)" by (cases "?z h")
  obtain r2 h2 where
    k: "h_filter_json_by_full_nr depth stdout (PRef a) full_nrs_to_keep h = (r2, h2)"
    by (cases "h_filter_json_by_full_nr depth stdout (PRef a) full_nrs_to_keep h")
  have z1: "take (length h) h1 = h"
    by (rule safe_run(1) [OF safe_filter_json_entity z])
  have k1: "take (length h) h2 = h"
    by (rule safe_run(1) [OF safe_filter_json_by_full_nr k])
  have k2: "length h \<le> b" if "r2 = Inr v" "reaches h2 v b" for v b
    by (rule reaches_fresh [OF that(2) safe_run(3) [OF safe_filter_json_by_full_nr k]
          safe_run(2) [OF safe_filter_json_by_full_nr k that(1)]])
  obtain rc hc where c: "h_deepcopy depth (PRef a) h = (rc, hc)"
    by (cases "h_deepcopy depth (PRef a) h")
  have z2: "v = PRef a" if "r1 = Inr v" "returns_input obj target_entity_type" for v
  proof (cases rc)
    case (Inl e)
    then show ?thesis using z that(1) c by (simp add: zoom_run [OF assms(2)])
  next
    case (Inr u)
    then show ?thesis
      using z that(1) c
      by (auto simp: zoom_run [OF assms(2)] zoom_branches_passthrough [OF that(2)] seq_def
            h_print_def ret_def split: option.splits)
  qed
  have z3: "length h \<le> b"
    if "r1 = Inr v" "\<not> returns_input obj target_entity_type" "reaches h1 v b" for v b
  proof (cases rc)
    case (Inl e)
    then show ?thesis using z that(1) c by (simp add: zoom_run [OF assms(2)])
  next
    case (Inr u)
    have u: "fresh_val (length h) u" "ext h hc"
      using safe_run(2,3) [OF safe_deepcopy c] Inr by simp_all
    have run: "h_zoom_branches depth stdout (PRef a) target_entity_type (key_str target_value)
                 (map_option key_str target_ulg_nr) (map_option key_str target_grundtext_nr) u
                 (dict_has obj ''lg-eigenschaften'' \<and> dict_has obj ''ulg-liste'')
                 (dict_has obj ''ulg-eigenschaften'' \<and> dict_has obj ''positionen'')
                 (dict_has obj ''grundtext'' \<and> dict_has obj ''folgeposition'') hc = (r1, h1)"
      using z c Inr by (simp add: zoom_run [OF assms(2)])
    from safeD [OF safe_zoom_valid [OF that(2) u(1)] u(2) run] that(1)
    have "ext h h1" "fresh_val (length h) v" by simp_all
    then show ?thesis using reaches_fresh [OF that(3)] by simp
  qed
  have "take (length h) h1 = h \<and> read_json d h1 (PRef a) = Some tree \<and>
        (\<forall>v. r1 = Inr v \<longrightarrow>
           (if returns_input obj target_entity_type then v = PRef a
            else \<forall>b. reaches h1 v b \<longrightarrow> length h \<le> b))"
    using z1 z2 z3 read_json_grown [OF z1 assms(1)] by auto
  moreover have "take (length h) h2 = h \<and> read_json d h2 (PRef a) = Some tree \<and>
        (\<forall>v. r2 = Inr v \<longrightarrow> (\<forall>b. reaches h2 v b \<longrightarrow> length h \<le> b))"
    using k1 k2 read_json_grown [OF k1 assms(1)] by auto
  ultimately show ?thesis by (simp add: z k)
qed

text \<open>
  Claim C9 on the small LG (its root is the object at address 9): the root is used for a
  keep call and then, in the store that call leaves, for a zoom call.  Both calls leave the
  ten objects of the tree alone, and each returns a new object that stands for the tree
  expected of it.
\<close>

theorem filters_leave_input_unchanged_witness:
  "read_json 10 small_store (PRef 9) = Some small_lg \<and>
   obj_at small_store 9
     = Some (ODict [(''lg-eigenschaften'', PNull), (''ulg-liste'', PRef 8), (''@_nr'', PStr ''00'')]) \<and>
   small_root = PRef 9 \<and>
   take (length small_store) store_after_keep = small_store \<and>
   read_json 10 store_after_keep (PRef 9) = Some small_lg \<and>
   fst (h_filter_json_by_full_nr 10 accepting_stdout (PRef 9) [''001101A''] small_store)
     = Inr (PRef 10) \<and>
   length small_store = 10 \<and>
   map_option Inr (read_json 10 store_after_keep (PRef 10))
     = Some (filter_json_by_full_nr small_lg [''001101A'']) \<and>
   take (length store_after_keep) store_after_zoom = store_after_keep \<and>
   read_json 10 store_after_zoom (PRef 9) = Some small_lg \<and>
   fst (h_filter_json_entity 10 accepting_stdout (PRef 9) ''Folgeposition'' (KStr ''B'') None None
          store_after_keep) = Inr (PRef 40) \<and>
   length store_after_keep = 40 \<and>
   read_json 10 store_after_zoom (PRef 40) = Some small_lg_B"
proof -
  let ?obj = "[(''lg-eigenschaften'', PNull), (''ulg-liste'', PRef 8), (''@_nr'', PStr ''00'')]"
  have w0: "read_json 10 small_store (PRef 9) = Some small_lg"
    by code_simp
  have o0: "obj_at small_store 9 = Some (ODict ?obj)" by code_simp
  have sr: "small_root = PRef 9" by code_simp
  have k: "take (length small_store) store_after_keep = small_store \<and>
           read_json 10 store_after_keep (PRef 9) = Some small_lg"
    using filters_leave_input_unchanged
            [OF w0 o0, where depth = 10 and stdout = accepting_stdout
               and target_entity_type = "''Folgeposition''" and target_value = "KStr ''B''"
               and target_ulg_nr = None and target_grundtext_nr = None
               and full_nrs_to_keep = "[''001101A'']"]
    by (simp add: case_prod_beta store_after_keep_def sr)
  then have w1: "read_json 10 store_after_keep (PRef 9) = Some small_lg" by simp
  have o1: "obj_at store_after_keep 9 = Some (ODict ?obj)"
    by (rule obj_at_grown [OF conjunct1 [OF k] o0])
  have z: "take (length store_after_keep) store_after_zoom = store_after_keep \<and>
           read_json 10 store_after_zoom (PRef 9) = Some small_lg"
    using filters_leave_input_unchanged
            [OF w1 o1, where depth = 10 and stdout = accepting_stdout
               and target_entity_type = "''Folgeposition''" and target_value = "KStr ''B''"
               and target_ulg_nr = None and target_grundtext_nr = None
               and full_nrs_to_keep = "[''001101A'']"]
    by (simp add: case_prod_beta store_after_zoom_def sr)
  have a1: "fst (h_filter_json_by_full_nr 10 accepting_stdout (PRef 9) [''001101A''] small_store)
              = Inr (PRef 10)"
    by code_simp
  have a2: "length small_store = 10" by code_simp
  have a3: "map_option Inr (read_json 10 store_after_keep (PRef 10))
              = Some (filter_json_by_full_nr small_lg [''001101A''])"
    by code_simp
  have a4: "fst (h_filter_json_entity 10 accepting_stdout (PRef 9) ''Folgeposition'' (KStr ''B'')
                   None None store_after_keep) = Inr (PRef 40)"
    by code_simp
  have a5: "length store_after_keep = 40" by code_simp
  have a6: "read_json 10 store_after_zoom (PRef 40) = Some small_lg_B"
    by code_simp
  show ?thesis using w0 o0 sr k z a1 a2 a3 a4 a5 a6 by simp
qed

text \<open>
  The claim as stated fails in one point: a zoom call does not always return a new tree.
  Asked for an \<open>LG\<close> on an LG root, it returns the very object it was given (the root at
  address 9 of a store of ten objects), so the result and the input are one object.
\<close>

theorem zoom_returns_input_object_counterexample:
  "read_json 10 small_store small_root = Some small_lg \<and>
   length small_store = 10 \<and>
   small_root = PRef 9 \<and>
   fst (h_filter_json_entity 10 accepting_stdout small_root ''LG'' (KStr ''00'') None None
          small_store) = Inr (PRef 9)"
  by code_simp

section \<open>\<open>filter_json_entity\<close>: the branches that give the input back\<close>












section \<open>Canonical key order is idempotent\<close>

lemma map_of_map_vals: "map_of (map_vals f obj) k = map_option f (map_of obj k)"
  by (induction obj) (auto simp: map_vals_def)

lemma dict_has_map_vals [simp]: "dict_has (map_vals f obj) k = dict_has obj k"
  by (simp add: dict_has_def map_of_map_vals)

lemma get_object_type_map_vals [simp]: "get_object_type (map_vals f obj) = get_object_type obj"
  by (simp add: get_object_type_def)

lemma preserve_json_order_arrange:
  "preserve_json_order (JObj obj) = JObj (arrange (map_vals preserve_json_order obj))"
proof -
  have a: "fold (\<lambda>key od. case map_of obj key of
                      Some v \<Rightarrow> dict_set od key (preserve_json_order v) | None \<Rightarrow> od) ks acc
         = fold (put_known (map_vals preserve_json_order obj)) ks acc" for ks acc
    by (induction ks arbitrary: acc)
       (auto simp: put_known_def map_of_map_vals split: option.splits)
  have b: "fold (\<lambda>kv od. if \<not> dict_has od (fst kv)
                      then dict_set od (fst kv) (preserve_json_order (snd kv)) else od) xs acc
         = fold put_new (map_vals preserve_json_order xs) acc" for xs acc
    by (induction xs arbitrary: acc) (auto simp: put_new_def map_vals_def)
  have c: "fold (\<lambda>kv od. dict_set od (fst kv) (preserve_json_order (snd kv))) xs acc
         = fold put_item (map_vals preserve_json_order xs) acc" for xs acc
    by (induction xs arbitrary: acc) (auto simp: put_item_def map_vals_def)
  show ?thesis
    by (simp add: arrange_def Let_def a b c)
qed

lemma fold_put_known: 
  "distinct ks \<Longrightarrow> fst ` set acc \<inter> set ks = {} \<Longrightarrow> fold (put_known obj) ks acc = acc @ sel obj ks"
proof (induction ks arbitrary: acc)
  case Nil
  then show ?case by simp
next
  case (Cons k ks)
  show ?case
  proof (cases "map_of obj k")
    case None
    with Cons show ?thesis by (simp add: put_known_def)
  next
    case (Some v)
    from Cons.prems have "k \<notin> fst ` set acc" by auto
    then have "put_known obj k acc = acc @ [(k, v)]"
      using Some by (simp add: put_known_def dict_set_new)
    moreover have "fold (put_known obj) ks (acc @ [(k, v)]) = (acc @ [(k, v)]) @ sel obj ks"
      using Cons.prems by (intro Cons.IH) auto
    ultimately show ?thesis using Some by simp
  qed
qed

lemma fold_put_new: "fold put_new obj acc = acc @ news obj (fst ` set acc)"
proof (induction obj arbitrary: acc)
  case Nil
  then show ?case by simp
next
  case (Cons kv obj)
  show ?case
  proof (cases "fst kv \<in> fst ` set acc")
    case True
    then show ?thesis using Cons.IH [of acc] by (simp add: put_new_def dict_has_iff)
  next
    case False
    then have "put_new kv acc = acc @ [kv]"
      by (simp add: put_new_def dict_has_iff dict_set_new)
    then show ?thesis using False Cons.IH [of "acc @ [kv]"] by simp
  qed
qed

lemma keys_sel: "fst ` set (sel obj ks) = set ks \<inter> fst ` set obj"
proof (induction ks)
  case Nil
  then show ?case by simp
next
  case (Cons k ks)
  show ?case
  proof (cases "map_of obj k")
    case None
    then have "k \<notin> fst ` set obj" by (simp add: map_of_eq_None_iff)
    then show ?thesis using None Cons by auto
  next
    case (Some v)
    then have "k \<in> fst ` set obj" by (metis map_of_eq_None_iff option.distinct(1))
    then show ?thesis using Some Cons by auto
  qed
qed

lemma set_sel: "set (sel obj ks) \<subseteq> set obj"
  by (induction ks) (auto split: option.splits dest: map_of_SomeD)

lemma distinct_sel: "distinct ks \<Longrightarrow> distinct (map fst (sel obj ks))"
proof (induction ks)
  case Nil
  then show ?case by simp
next
  case (Cons k ks)
  have "k \<notin> fst ` set (sel obj ks)" using Cons.prems by (simp add: keys_sel)
  then show ?case using Cons by (auto split: option.splits)
qed

lemma map_of_sel: "distinct ks \<Longrightarrow> map_of (sel obj ks) k = (if k \<in> set ks then map_of obj k else None)"
proof (induction ks)
  case Nil
  then show ?case by simp
next
  case (Cons a ks)
  then show ?case by (cases "map_of obj a") auto
qed

lemma keys_news: "fst ` set (news obj S) = fst ` set obj - S"
  by (induction obj S rule: news.induct) auto

lemma set_news: "set (news obj S) \<subseteq> set obj"
  by (induction obj S rule: news.induct) auto

lemma distinct_news: "distinct (map fst (news obj S))"
  by (induction obj S rule: news.induct) (auto simp: keys_news)

lemma news_skip: "fst ` set xs \<subseteq> S \<Longrightarrow> news (xs @ ys) S = news ys S"
  by (induction xs) auto

lemma news_id: "distinct (map fst ys) \<Longrightarrow> fst ` set ys \<inter> S = {} \<Longrightarrow> news ys S = ys"
proof (induction ys arbitrary: S)
  case Nil
  then show ?case by simp
next
  case (Cons kv ys)
  have "news ys (insert (fst kv) S) = ys"
    using Cons.prems by (intro Cons.IH) auto
  then show ?case using Cons.prems by auto
qed

lemma sel_cong: "(\<And>k. k \<in> set ks \<Longrightarrow> map_of obj k = map_of obj' k) \<Longrightarrow> sel obj ks = sel obj' ks"
  by (induction ks) (auto split: option.splits)

lemma get_object_type_keys:
  "fst ` set obj = fst ` set obj' \<Longrightarrow> get_object_type obj = get_object_type obj'"
  by (simp add: get_object_type_def dict_has_iff)

lemma distinct_KEY_ORDER_MAP: "distinct (KEY_ORDER_MAP t)"
  by (cases t) (simp_all add: KEY_ORDER_MAP_def)

lemma fold_put_item_keys: "fst ` set (fold put_item obj acc) = fst ` set acc \<union> fst ` set obj"
  by (induction obj arbitrary: acc) (auto simp: put_item_def keys_dict_set)

lemma fold_put_item_distinct:
  "distinct (map fst acc) \<Longrightarrow> distinct (map fst (fold put_item obj acc))"
  by (induction obj arbitrary: acc) (auto simp: put_item_def distinct_dict_set)

lemma fold_put_item_set: "set (fold put_item obj acc) \<subseteq> set acc \<union> set obj"
proof (induction obj arbitrary: acc)
  case Nil
  then show ?case by simp
next
  case (Cons kv obj)
  have "set (put_item kv acc) \<subseteq> insert kv (set acc)"
    using set_dict_set [of acc "fst kv" "snd kv"] by (simp add: put_item_def)
  then show ?case using Cons.IH [of "put_item kv acc"] by auto
qed

lemma fold_put_item_id:
  "distinct (map fst (acc @ ys)) \<Longrightarrow> fold put_item ys acc = acc @ ys"
proof (induction ys arbitrary: acc)
  case Nil
  then show ?case by simp
next
  case (Cons kv ys)
  have "put_item kv acc = acc @ [kv]"
    using Cons.prems by (auto simp: put_item_def dict_set_new)
  then show ?case using Cons.prems Cons.IH [of "acc @ [kv]"] by simp
qed

lemma arrange_typed:
  assumes "KEY_ORDER_MAP (get_object_type obj) \<noteq> []"
  shows "arrange obj = sel obj (KEY_ORDER_MAP (get_object_type obj)) @
           news obj (set (KEY_ORDER_MAP (get_object_type obj)) \<inter> fst ` set obj)"
  using assms
  by (simp add: arrange_def Let_def fold_put_known distinct_KEY_ORDER_MAP fold_put_new keys_sel)

lemma arrange_unknown:
  assumes "KEY_ORDER_MAP (get_object_type obj) = []"
  shows "arrange obj = fold put_item obj []"
  using assms by (simp add: arrange_def)

lemma keys_arrange: "fst ` set (arrange obj) = fst ` set obj"
proof (cases "KEY_ORDER_MAP (get_object_type obj) = []")
  case True
  then show ?thesis by (simp add: arrange_unknown fold_put_item_keys)
next
  case False
  then show ?thesis
    by (simp add: arrange_typed keys_sel keys_news image_Un)
qed

lemma set_arrange: "set (arrange obj) \<subseteq> set obj"
proof (cases "KEY_ORDER_MAP (get_object_type obj) = []")
  case True
  then show ?thesis using fold_put_item_set [of obj "[]"] by (simp add: arrange_unknown)
next
  case False
  then show ?thesis
    using set_sel [of obj "KEY_ORDER_MAP (get_object_type obj)"]
      set_news [of obj "set (KEY_ORDER_MAP (get_object_type obj)) \<inter> fst ` set obj"]
    by (simp add: arrange_typed)
qed

lemma distinct_arrange: "distinct (map fst (arrange obj))"
proof (cases "KEY_ORDER_MAP (get_object_type obj) = []")
  case True
  then show ?thesis by (simp add: arrange_unknown fold_put_item_distinct)
next
  case False
  then show ?thesis
    by (auto simp: arrange_typed distinct_sel distinct_KEY_ORDER_MAP distinct_news keys_sel keys_news)
qed

lemma arrange_arrange: "arrange (arrange obj) = arrange obj"
proof (cases "KEY_ORDER_MAP (get_object_type obj) = []")
  case True
  have t: "get_object_type (arrange obj) = get_object_type obj"
    by (rule get_object_type_keys) (rule keys_arrange)
  have "arrange (arrange obj) = fold put_item (arrange obj) []"
    using True arrange_unknown [of "arrange obj"] by (simp only: t)
  also have "\<dots> = arrange obj"
    using fold_put_item_id [of "[]" "arrange obj"] by (simp add: distinct_arrange)
  finally show ?thesis .
next
  case False
  define po where "po = KEY_ORDER_MAP (get_object_type obj)"
  define A where "A = sel obj po"
  define R where "R = news obj (set po \<inter> fst ` set obj)"
  have Y: "arrange obj = A @ R"
    using False by (simp add: arrange_typed po_def A_def R_def)
  have t: "get_object_type (arrange obj) = get_object_type obj"
    by (rule get_object_type_keys) (rule keys_arrange)
  have dpo: "distinct po" by (simp add: po_def distinct_KEY_ORDER_MAP)
  have kA: "fst ` set A = set po \<inter> fst ` set obj" by (simp add: A_def keys_sel)
  have kR: "fst ` set R = fst ` set obj - set po" by (auto simp: R_def keys_news)
  have dR: "distinct (map fst R)" by (simp add: R_def distinct_news)
  have "map_of (A @ R) k = map_of obj k" if "k \<in> set po" for k
  proof -
    have "k \<notin> fst ` set R" using that kR by auto
    then have "map_of R k = None" by (simp add: map_of_eq_None_iff)
    then have "map_of (A @ R) k = map_of A k"
      by (simp add: map_add_def split: option.splits)
    then show ?thesis using that dpo by (simp add: A_def map_of_sel)
  qed
  then have selY: "sel (A @ R) po = A"
    unfolding A_def by (intro sel_cong) 
  have "arrange (arrange obj) = sel (A @ R) po @ news (A @ R) (set po \<inter> fst ` set (A @ R))"
    using arrange_typed [of "arrange obj", unfolded t, OF False, folded po_def]
    by (simp only: Y)
  also have "set po \<inter> fst ` set (A @ R) = fst ` set A"
    using kA kR by (auto simp: image_Un)
  also have "news (A @ R) (fst ` set A) = news R (fst ` set A)"
    by (rule news_skip) simp
  also have "\<dots> = R"
    using dR kA kR by (intro news_id) auto
  finally show ?thesis by (simp add: selY Y)
qed

lemma map_vals_id: "(\<And>kv. kv \<in> set obj \<Longrightarrow> f (snd kv) = snd kv) \<Longrightarrow> map_vals f obj = obj"
  by (induction obj) (auto simp: map_vals_def)

text \<open>
  Claim C7.  Applying \<open>preserve_json_order\<close> to its own result changes nothing, for
  every JSON value: dictionaries, lists and scalars, nested to any depth.
\<close>

theorem preserve_json_order_idempotent:
  "preserve_json_order (preserve_json_order j) = preserve_json_order j"
proof (induction j rule: preserve_json_order.induct)
  case (1 obj)
  define X where "X = map_vals preserve_json_order obj"
  have vals: "preserve_json_order (snd kv) = snd kv" if "kv \<in> set X" for kv
  proof -
    from that obtain kv0 where kv0: "kv0 \<in> set obj" "kv = (fst kv0, preserve_json_order (snd kv0))"
      by (auto simp: X_def map_vals_def)
    have "preserve_json_order (preserve_json_order (snd kv0)) = preserve_json_order (snd kv0)"
    proof (cases "KEY_ORDER_MAP (get_object_type obj) = []")
      case True
      then show ?thesis using "1.IH" kv0(1) by simp
    next
      case False
      have "\<not> dict_has ([] :: (string \<times> json) list) (fst kv0)" by (simp add: dict_has_def)
      then show ?thesis using "1.IH"(2) [OF refl False refl kv0(1)] by simp
    qed
    then show ?thesis using kv0 by simp
  qed
  have "map_vals preserve_json_order (arrange X) = arrange X"
    using set_arrange [of X] by (intro map_vals_id vals) auto
  then show ?case
    by (simp only: preserve_json_order_arrange arrange_arrange flip: X_def)
next
  case (2 xs)
  then show ?case by simp
qed simp_all

section \<open>The round through the storage\<close>

text \<open>
  Claim C2 fails on an LG with an undivided position.  \<open>process_and_store_data\<close> writes
  a row for the LG, a row for the ULG and a row of the type \<open>UngeteiltePosition\<close>; it
  writes no row of the type \<open>Grundtext\<close>, because the Grundtext has no key \<open>grundtext\<close>.
  \<open>fetch_and_filter_lg_by_position_numbers_v2\<close> reads the types \<open>LG\<close>, \<open>ULG\<close>,
  \<open>Grundtext\<close> and \<open>Folgeposition\<close> only and puts the Grundtext rows it has found, none,
  in the place of the Grundtext list of the stored ULG.  For the code \<open>001101\<close> it returns
  the LG with an empty ULG \<open>11\<close>, while \<open>filter_json_by_full_nr\<close> on the original LG
  returns the LG with its Grundtext \<open>01\<close>; the canonical forms of the two differ.
\<close>

theorem reconstruction_loses_undivided_position:
  "table_of [undivided_lg] = Some undivided_table \<and>
   fetch_and_filter_lg_by_position_numbers_v2 True (table_fetch undivided_table) [''001101'']
     = Inr emptied_lg \<and>
   filter_json_by_full_nr undivided_lg [''001101''] = Inr undivided_lg \<and>
   preserve_json_order emptied_lg \<noteq> preserve_json_order undivided_lg"
proof -
  have t: "table_of [undivided_lg] = Some undivided_table"
    by code_simp
  have q: "requested_lg_nrs [''001101''] = {''00''}"
    by (auto simp add: reconstruct_defs keep_defs)
  have f: "fetch_and_filter_lg_by_position_numbers_v2 True (table_fetch undivided_table)
             [''001101''] = Inr emptied_lg"
    unfolding fetch_and_filter_lg_by_position_numbers_v2_def Let_def q
    by (simp add: undivided_table_def undivided_lg_def undivided_gt_def emptied_lg_def
        lg_row_def ulg_row_def table_fetch_def query_def ordered_by_def
        reconstruct_defs nested_defs keep_defs mk_defs)
  have k: "filter_json_by_full_nr undivided_lg [''001101''] = Inr undivided_lg"
    by code_simp
  have n: "preserve_json_order emptied_lg \<noteq> preserve_json_order undivided_lg"
    by code_simp
  show ?thesis using t f k n by simp
qed

end
